theory Spec2Isabelle
  imports Main "HOL-Library.Sublist"
begin

section \<open>Python strings\<close>

text \<open>
  The rule \<^verbatim>\<open>GPSEC_ECS_Tags\<close> works on Python strings: resource identifiers (ARNs),
  tag keys and tag values. A Python string is a sequence of code points. It is modelled
  as a \<^typ>\<open>string\<close> in which every \<^typ>\<open>char\<close> stands for one code point below 256,
  so that \<^const>\<open>length\<close> is Python's \<^verbatim>\<open>len\<close> and \<^const>\<open>take\<close> is a slice
  \<^verbatim>\<open>s[:n]\<close>.
\<close>

definition LF :: char where
  "LF = CHR 0x0A"

definition apostrophe :: char where
  "apostrophe = CHR 0x27"

definition double_quote :: char where
  "double_quote = CHR 0x22"

definition backslash :: char where
  "backslash = CHR 0x5C"

text \<open>
  \<^verbatim>\<open>str.lower()\<close> on one code point below 256: the letters A to Z and the capital
  letters U+00C0 to U+00DE (the multiplication sign U+00D7 apart) move up by 32, which
  sets bit 5; every other code point stays.
\<close>

definition lower_char :: "char \<Rightarrow> char" where
  "lower_char c =
     (let n = of_char c :: nat in
      if (65 \<le> n \<and> n \<le> 90) \<or> (192 \<le> n \<and> n \<le> 222 \<and> n \<noteq> 215)
      then (case c of Char b0 b1 b2 b3 b4 b5 b6 b7 \<Rightarrow> Char b0 b1 b2 b3 b4 True b6 b7)
      else c)"

definition lower :: "string \<Rightarrow> string" where
  "lower s = map lower_char s"

text \<open>
  \<^verbatim>\<open>re.search\<close> tries the pattern at every start position of the string, from left
  to right, the position after the last character included. The first argument says
  whether the pattern matches at the start of the rest of the string.
\<close>

fun re_search :: "(string \<Rightarrow> bool) \<Rightarrow> string \<Rightarrow> bool" where
  "re_search m [] = m []"
| "re_search m (c # cs) = (m (c # cs) \<or> re_search m cs)"

text \<open>The substring test \<^verbatim>\<open>sub in s\<close>.\<close>

definition str_in :: "string \<Rightarrow> string \<Rightarrow> bool" where
  "str_in sub s = re_search (prefix sub) s"

text \<open>
  \<^verbatim>\<open>s.count(sub)\<close>: the number of occurrences of \<^verbatim>\<open>sub\<close> in \<^verbatim>\<open>s\<close> that do not
  overlap, found from left to right. After an occurrence the scan goes on behind it. The
  empty string occurs \<^verbatim>\<open>len(s) + 1\<close> times.
\<close>

fun count_from :: "string \<Rightarrow> string \<Rightarrow> nat" where
  "count_from sub [] = 0"
| "count_from sub (c # cs) =
     (if prefix sub (c # cs) then Suc (count_from sub (drop (length sub - 1) cs))
      else count_from sub cs)"

definition str_count :: "string \<Rightarrow> string \<Rightarrow> int" where
  "str_count s sub = (if sub = [] then int (length s) + 1 else int (count_from sub s))"

text \<open>\<^verbatim>\<open>sep.join(xs)\<close>.\<close>

fun join :: "string \<Rightarrow> string list \<Rightarrow> string" where
  "join sep [] = []"
| "join sep [x] = x"
| "join sep (x # y # ys) = x @ sep @ join sep (y # ys)"

subsection \<open>Printing values\<close>

text \<open>
  The classifier's result is a list whose entries are two-element lists of strings or
  plain strings; the evaluators print it with \<^verbatim>\<open>str\<close>. These are the Python values
  that occur there.
\<close>

datatype pyval = Str string | List "pyval list"

text \<open>
  \<^verbatim>\<open>repr\<close> of a string: the quote is the apostrophe, unless the string holds an
  apostrophe and no double quote. The quote and the backslash are escaped with a
  backslash, tab, line feed and carriage return are written \<^verbatim>\<open>\t\<close>, \<^verbatim>\<open>\n\<close>,
  \<^verbatim>\<open>\r\<close>, and every other code point that is not printable (below 32, 127 to 160,
  and 173) is written \<^verbatim>\<open>\xhh\<close> with two lower-case hexadecimal digits.
\<close>

definition repr_quote :: "string \<Rightarrow> char" where
  "repr_quote s =
     (if apostrophe \<in> set s \<and> double_quote \<notin> set s then double_quote else apostrophe)"

definition hexdigit :: "nat \<Rightarrow> char" where
  "hexdigit n = ''0123456789abcdef'' ! n"

definition repr_char :: "char \<Rightarrow> char \<Rightarrow> string" where
  "repr_char q c =
     (let n = of_char c :: nat in
      if c = q \<or> c = backslash then [backslash, c]
      else if c = CHR 0x09 then [backslash, CHR ''t'']
      else if c = LF then [backslash, CHR ''n'']
      else if c = CHR 0x0D then [backslash, CHR ''r'']
      else if n < 32 \<or> (127 \<le> n \<and> n \<le> 160) \<or> n = 173
      then [backslash, CHR ''x'', hexdigit (n div 16), hexdigit (n mod 16)]
      else [c])"

definition repr_str :: "string \<Rightarrow> string" where
  "repr_str s = (let q = repr_quote s in [q] @ concat (map (repr_char q) s) @ [q])"

text \<open>\<^verbatim>\<open>str\<close> of a list prints every element with \<^verbatim>\<open>repr\<close>.\<close>

fun repr :: "pyval \<Rightarrow> string" where
  "repr (Str s) = repr_str s"
| "repr (List xs) = ''['' @ join '', '' (map repr xs) @ '']''"

section \<open>Supporting functions for ECS\<close>

subsection \<open>The regular expressions\<close>

text \<open>
  \<^verbatim>\<open>nameregex = '\/(.*)'\<close>, used as \<^verbatim>\<open>re.findall(nameregex, arn)\<close>. A match starts
  at a slash; the group takes every character up to the next line feed or the end of
  the string (the dot matches no line feed, and the star is greedy). \<^verbatim>\<open>findall\<close>
  returns the group of every match, scanning on behind each match.
\<close>

function findall_nameregex :: "string \<Rightarrow> string list" where
  "findall_nameregex [] = []"
| "findall_nameregex (c # cs) =
     (if c = CHR ''/''
      then takeWhile (\<lambda>d. d \<noteq> LF) cs # findall_nameregex (dropWhile (\<lambda>d. d \<noteq> LF) cs)
      else findall_nameregex cs)"
  by pat_completeness auto
termination
  by (relation "measure length") (auto simp: length_dropWhile_le less_Suc_eq_le)

text \<open>
  \<^verbatim>\<open>uai_value_regex_filter = "(uai[\d]{7})"\<close>: the letters \<^verbatim>\<open>uai\<close> and seven
  decimal digits. Below code point 256 the decimal digits are 0 to 9.
\<close>

definition digit :: "char \<Rightarrow> bool" where
  "digit c = (48 \<le> (of_char c :: nat) \<and> (of_char c :: nat) \<le> 57)"

definition uai_value_regex_filter :: "string \<Rightarrow> bool" where
  "uai_value_regex_filter s =
     (prefix ''uai'' s \<and> length (take 7 (drop 3 s)) = 7 \<and> list_all digit (take 7 (drop 3 s)))"

text \<open>
  \<^verbatim>\<open>env_value_regex_filter = "(?:^)(prd|stg|qa|tst|dev|lab)(?:(?= )|$)"\<close>. Without
  the multi-line flag \<^verbatim>\<open>^\<close> matches at the start of the string only, so
  \<^verbatim>\<open>re.search\<close> can match at position 0 only. After one of the six words either the
  next character is a space (the look-ahead), or \<^verbatim>\<open>$\<close> matches: at the end of the
  string, or just before a line feed that is the last character of the string.
\<close>

definition env_words :: "string list" where
  "env_words = [''prd'', ''stg'', ''qa'', ''tst'', ''dev'', ''lab'']"

definition dollar :: "string \<Rightarrow> bool" where
  "dollar rest = (rest = [] \<or> rest = [LF])"

definition env_value_regex_filter :: "string \<Rightarrow> bool" where
  "env_value_regex_filter s =
     list_ex (\<lambda>w. prefix w s \<and>
                (let rest = drop (length w) s
                 in (rest \<noteq> [] \<and> hd rest = CHR '' '') \<or> dollar rest)) env_words"

text \<open>
  \<^verbatim>\<open>name_value_regex_filter = "(\s)"\<close>: one white-space character. Below code point
  256 these are 9 to 13, 28 to 32, 133 and 160.
\<close>

definition whitespace :: "char \<Rightarrow> bool" where
  "whitespace c =
     (let n = of_char c :: nat in (9 \<le> n \<and> n \<le> 13) \<or> (28 \<le> n \<and> n \<le> 32) \<or> n = 133 \<or> n = 160)"

definition name_value_regex_filter :: "string \<Rightarrow> bool" where
  "name_value_regex_filter s = (s \<noteq> [] \<and> whitespace (hd s))"

subsection \<open>Compliance result strings\<close>

text \<open>The templates, with \<^verbatim>\<open>.format\<close> applied to the arguments.\<close>

definition non_compliant_str :: "string \<Rightarrow> string \<Rightarrow> string" where
  "non_compliant_str name results =
     ''One or More Tags are NON_COMPLIANT on ECS Resource ('' @ name @ ''). Results: (''
       @ results @ '')''"

definition compliant_str :: "string \<Rightarrow> string" where
  "compliant_str name = ''Tags are COMPLIANT on ECS Resource ('' @ name @ '')''"

definition no_tags_str :: "string \<Rightarrow> string" where
  "no_tags_str name = ''NO Tags at all on ECS Resource ('' @ name @ '')''"

definition old_arn_str :: "string \<Rightarrow> string" where
  "old_arn_str name = ''('' @ name @ '') uses old ARN and does not support TAGS''"

subsection \<open>The tag classifier\<close>

record tag =
  key :: string
  "value" :: string

text \<open>
  The body of the loop of \<^verbatim>\<open>tag_regex_filtering\<close>: the entry that one tag appends to
  \<^verbatim>\<open>tags_checked\<close>.
\<close>

definition tag_checked :: "tag \<Rightarrow> pyval" where
  "tag_checked t =
     (if str_in ''uai'' (lower (key t)) then
        (if re_search uai_value_regex_filter (value t)
         then List [Str (key t), Str ''COMPLIANT'']
         else List [Str (key t), Str ''NON_COMPLIANT''])
      else if str_in ''env'' (lower (key t)) then
        (if env_value_regex_filter (value t)
         then List [Str (key t), Str ''COMPLIANT'']
         else List [Str (key t), Str ''NON_COMPLIANT''])
      else if str_in ''Name'' (key t) \<or> str_in ''app'' (lower (key t)) then
        (if re_search name_value_regex_filter (value t)
         then List [Str (key t), Str ''NON_COMPLIANT'']
         else List [Str (key t), Str ''COMPLIANT''])
      else Str ''NO_TAGS'')"

fun tag_regex_filtering_loop :: "tag list \<Rightarrow> pyval list \<Rightarrow> pyval list" where
  "tag_regex_filtering_loop [] tags_checked = tags_checked"
| "tag_regex_filtering_loop (t # tags) tags_checked =
     tag_regex_filtering_loop tags (tags_checked @ [tag_checked t])"

definition tag_regex_filtering :: "tag list \<Rightarrow> pyval list" where
  "tag_regex_filtering tags = tag_regex_filtering_loop tags []"

section \<open>Collaborators, errors and calls\<close>

text \<open>
  The functions below call the ECS client. An exception that leaves a function is the
  \<open>Inl\<close> of its result; \<^verbatim>\<open>ClientError\<close> stands for any failure of a collaborator.
\<close>

datatype error = IndexError | KeyError string | AttributeError string | ClientError string

text \<open>The keyword arguments of a call, in the order in which they are passed.\<close>

datatype arg = AStr string | AInt int | AList "string list"

type_synonym kwargs = "(string \<times> arg) list"

text \<open>
  A response is a dictionary. \<open>lists r k\<close> is \<^verbatim>\<open>r[k]\<close> where that is a list of
  items (\<open>None\<close> where the key is missing, a \<^verbatim>\<open>KeyError\<close>), and \<open>NextToken r\<close> is
  \<^verbatim>\<open>r.get('NextToken')\<close>.
\<close>

record 'a response =
  lists :: "string \<rightharpoonup> 'a list"
  NextToken :: "string option"

text \<open>A bound method of the client: the name of the operation and what a call returns.\<close>

datatype 'a bound_method = Method (method_name: string) (invoke: "kwargs \<Rightarrow> error + 'a response")

record service =
  serviceArn :: string
  serviceName :: string

text \<open>The ECS client, with the operations that the rule uses.\<close>

record client =
  list_clusters :: "kwargs \<Rightarrow> error + string response"
  list_task_definitions :: "kwargs \<Rightarrow> error + string response"
  list_services :: "kwargs \<Rightarrow> error + string response"
  list_tags_for_resource :: "kwargs \<Rightarrow> error + tag response"
  describe_services :: "kwargs \<Rightarrow> error + service response"

text \<open>
  \<^verbatim>\<open>fetch_all_items\<close> uses its argument \<^verbatim>\<open>client\<close> in one way only: it looks up the
  attribute named \<^verbatim>\<open>method\<close>. An object is given to it as the result of that lookup,
  \<open>None\<close> when the object has no such attribute. The attributes of the ECS client are
  the operations of the service, and none of them has this name.
\<close>

definition getattr_method :: "client \<Rightarrow> 'a bound_method option" where
  "getattr_method ecs_service = None"

text \<open>Every call of a method of the client is recorded, in the order of the calls.\<close>

datatype call = Call string kwargs

text \<open>
  The result of a function that calls collaborators: \<open>None\<close> when it does not return,
  otherwise the value or the exception, and the calls it made.
\<close>

type_synonym 'a io = "((error + 'a) \<times> call list) option"

definition return :: "'a \<Rightarrow> 'a io" where
  "return x = Some (Inr x, [])"

definition lift :: "error + 'a \<Rightarrow> 'a io" where
  "lift r = Some (r, [])"

definition bind :: "'a io \<Rightarrow> ('a \<Rightarrow> 'b io) \<Rightarrow> 'b io" where
  "bind m f =
     (case m of
        None \<Rightarrow> None
      | Some (Inl e, calls) \<Rightarrow> Some (Inl e, calls)
      | Some (Inr x, calls) \<Rightarrow>
          (case f x of None \<Rightarrow> None | Some (r, calls') \<Rightarrow> Some (r, calls @ calls')))"

definition call_method :: "'a bound_method \<Rightarrow> kwargs \<Rightarrow> 'a response io" where
  "call_method m kw = Some (invoke m kw, [Call (method_name m) kw])"

text \<open>\<^verbatim>\<open>response[response_key]\<close>.\<close>

definition getitem :: "'a response \<Rightarrow> string \<Rightarrow> error + 'a list" where
  "getitem response response_key =
     (case lists response response_key of None \<Rightarrow> Inl (KeyError response_key) | Some items \<Rightarrow> Inr items)"

text \<open>\<^verbatim>\<open>xs[0]\<close>.\<close>

definition index0 :: "'a list \<Rightarrow> error + 'a" where
  "index0 xs = (if xs = [] then Inl IndexError else Inr (hd xs))"

subsection \<open>\<^verbatim>\<open>fetch_all_items\<close>\<close>

text \<open>
  The loop \<^verbatim>\<open>while next_token:\<close> of \<^verbatim>\<open>fetch_all_items\<close>. A token is true when it is
  present and not empty. Each round looks up \<^verbatim>\<open>client.method\<close> and calls it with the
  token as its only argument. The loop need not end: an object whose \<^verbatim>\<open>method\<close> answers
  every call with a token keeps it running.
\<close>

partial_function (option) fetch_all_items_loop ::
  "'a bound_method option \<Rightarrow> string \<Rightarrow> 'a list \<Rightarrow> string option \<Rightarrow> call list
     \<Rightarrow> ((error + 'a list) \<times> call list) option"
where
  "fetch_all_items_loop client_method response_key items next_token calls =
     (case next_token of
        None \<Rightarrow> Some (Inr items, calls)
      | Some token \<Rightarrow>
          if token = [] then Some (Inr items, calls)
          else
            (case client_method of
               None \<Rightarrow> Some (Inl (AttributeError ''method''), calls)
             | Some m \<Rightarrow>
                 (case invoke m [(''NextToken'', AStr token)] of
                    Inl e \<Rightarrow>
                      Some (Inl e, calls @ [Call (method_name m) [(''NextToken'', AStr token)]])
                  | Inr response \<Rightarrow>
                      (case getitem response response_key of
                         Inl e \<Rightarrow>
                           Some (Inl e, calls @ [Call (method_name m) [(''NextToken'', AStr token)]])
                       | Inr page \<Rightarrow>
                           fetch_all_items_loop client_method response_key (items @ page)
                             (NextToken response)
                             (calls @ [Call (method_name m) [(''NextToken'', AStr token)]])))))"

definition fetch_all_items ::
  "'a bound_method option \<Rightarrow> 'a bound_method \<Rightarrow> string \<Rightarrow> kwargs \<Rightarrow> 'a list io"
where
  "fetch_all_items client_method method response_key kwargs =
     (case (if kwargs \<noteq> [] then invoke method kwargs else invoke method []) of
        Inl e \<Rightarrow> Some (Inl e, [Call (method_name method) kwargs])
      | Inr response \<Rightarrow>
          (case getitem response response_key of
             Inl e \<Rightarrow> Some (Inl e, [Call (method_name method) kwargs])
           | Inr items \<Rightarrow>
               fetch_all_items_loop client_method response_key items (NextToken response)
                 [Call (method_name method) kwargs]))"

subsection \<open>The evaluators\<close>

datatype ComplianceType = COMPLIANT | NON_COMPLIANT | NOT_APPLICABLE

record Evaluation =
  complianceType :: ComplianceType
  complianceResourceId :: string
  complianceResourceType :: string
  annotation :: string

text \<open>
  \<^verbatim>\<open>Evaluation(complianceType, resourceId, resourceType=..., annotation=...)\<close>.
\<close>

definition mk_Evaluation :: "ComplianceType \<Rightarrow> string \<Rightarrow> string \<Rightarrow> string \<Rightarrow> Evaluation" where
  "mk_Evaluation ct resourceId resourceType ann =
     \<lparr>complianceType = ct, complianceResourceId = resourceId,
      complianceResourceType = resourceType, annotation = ann\<rparr>"

text \<open>
  The three evaluators append one \<^verbatim>\<open>Evaluation\<close> to the list \<^verbatim>\<open>evaluations\<close> that
  they are given; the model returns the list after the call. The calls of \<^verbatim>\<open>print\<close>
  are left out. The count of compliant tags is the number of times the text
  \<^verbatim>\<open> 'COMPLIANT']\<close> occurs in the printed result of the classifier.
\<close>

definition taskDefinition_eval ::
  "client \<Rightarrow> string \<Rightarrow> int \<Rightarrow> Evaluation list \<Rightarrow> 'event \<Rightarrow> Evaluation list io"
where
  "taskDefinition_eval ecs_service task_definition_arn minimum_number_compliant evaluations event =
     bind (lift (index0 (findall_nameregex task_definition_arn))) (\<lambda>task_definition_name.
     bind (fetch_all_items (getattr_method ecs_service)
             (Method ''list_tags_for_resource'' (list_tags_for_resource ecs_service)) ''tags''
             [(''resourceArn'', AStr task_definition_arn)]) (\<lambda>tags_in_taskDefinition.
     if length tags_in_taskDefinition = 0 then
       return (evaluations @ [mk_Evaluation NON_COMPLIANT task_definition_arn
         ''AWS::ECS::TaskDefinition'' (take 255 (no_tags_str task_definition_name))])
     else if str_count (repr (List (tag_regex_filtering tags_in_taskDefinition))) '' 'COMPLIANT']''
               = minimum_number_compliant then
       return (evaluations @ [mk_Evaluation NON_COMPLIANT task_definition_arn
         ''AWS::ECS::TaskDefinition'' (take 255 (compliant_str task_definition_name))])
     else
       return (evaluations @ [mk_Evaluation NON_COMPLIANT task_definition_arn
         ''AWS::ECS::TaskDefinition''
         (take 255 (non_compliant_str task_definition_name
            (repr (List (tag_regex_filtering tags_in_taskDefinition)))))])))"

text \<open>
  \<^verbatim>\<open>sum(map(lambda x : 1 if '/' in x else 0, service_arn))\<close>: the sum runs over the
  characters of the identifier.
\<close>

definition slashes :: "string \<Rightarrow> int" where
  "slashes service_arn = sum_list (map (\<lambda>x. if str_in ''/'' [x] then 1 else 0) service_arn)"

definition service_eval ::
  "client \<Rightarrow> string \<Rightarrow> int \<Rightarrow> string \<Rightarrow> Evaluation list \<Rightarrow> 'event \<Rightarrow> Evaluation list io"
where
  "service_eval ecs_service service_arn minimum_number_compliant service_name evaluations event =
     (if slashes service_arn > 1 then
        bind (fetch_all_items (getattr_method ecs_service)
                (Method ''list_tags_for_resource'' (list_tags_for_resource ecs_service)) ''tags''
                [(''resourceArn'', AStr service_arn)]) (\<lambda>tags_in_service.
        if length tags_in_service = 0 then
          return (evaluations @ [mk_Evaluation NON_COMPLIANT service_arn
            ''AWS::ECS::Service'' (take 255 (no_tags_str service_name))])
        else if str_count (repr (List (tag_regex_filtering tags_in_service))) '' 'COMPLIANT']''
                  = minimum_number_compliant then
          return (evaluations @ [mk_Evaluation NON_COMPLIANT service_arn
            ''AWS::ECS::Service'' (take 255 (compliant_str service_name))])
        else
          return (evaluations @ [mk_Evaluation NON_COMPLIANT service_arn
            ''AWS::ECS::Service''
            (take 255 (non_compliant_str service_name
               (repr (List (tag_regex_filtering tags_in_service)))))]))
      else
        return (evaluations @ [mk_Evaluation NON_COMPLIANT service_arn
          ''AWS::ECS::Service'' (take 255 (old_arn_str service_name))]))"

definition cluster_eval ::
  "client \<Rightarrow> string \<Rightarrow> int \<Rightarrow> string \<Rightarrow> Evaluation list \<Rightarrow> 'event \<Rightarrow> Evaluation list io"
where
  "cluster_eval ecs_service cluster minimum_number_compliant clustername evaluations event =
     bind (fetch_all_items (getattr_method ecs_service)
             (Method ''list_tags_for_resource'' (list_tags_for_resource ecs_service)) ''tags''
             [(''resourceArn'', AStr cluster)]) (\<lambda>tags_in_cluster.
     if length tags_in_cluster = 0 then
       return (evaluations @ [mk_Evaluation NON_COMPLIANT cluster
         ''AWS::ECS::Cluster'' (take 255 (no_tags_str clustername))])
     else if str_count (repr (List (tag_regex_filtering tags_in_cluster))) '' 'COMPLIANT']''
               = minimum_number_compliant then
       return (evaluations @ [mk_Evaluation COMPLIANT cluster
         ''AWS::ECS::Cluster'' (take 255 (compliant_str clustername))])
     else
       return (evaluations @ [mk_Evaluation NON_COMPLIANT cluster
         ''AWS::ECS::Cluster''
         (take 255 (non_compliant_str clustername
            (repr (List (tag_regex_filtering tags_in_cluster)))))]))"

subsection \<open>\<^verbatim>\<open>evaluate_periodic\<close>\<close>

text \<open>The loop over the task definitions.\<close>

fun task_definitions_loop ::
  "client \<Rightarrow> string list \<Rightarrow> int \<Rightarrow> Evaluation list \<Rightarrow> 'event \<Rightarrow> Evaluation list io"
where
  "task_definitions_loop ecs_service [] minimum_number_compliant evaluations event =
     return evaluations"
| "task_definitions_loop ecs_service (task_definition_arn # arns) minimum_number_compliant
     evaluations event =
     bind (taskDefinition_eval ecs_service task_definition_arn minimum_number_compliant
             evaluations event)
       (\<lambda>evaluations'. task_definitions_loop ecs_service arns minimum_number_compliant
                          evaluations' event)"

text \<open>The loop over the described services of one cluster.\<close>

fun services_loop ::
  "client \<Rightarrow> service list \<Rightarrow> int \<Rightarrow> Evaluation list \<Rightarrow> 'event \<Rightarrow> Evaluation list io"
where
  "services_loop ecs_service [] minimum_number_compliant evaluations event = return evaluations"
| "services_loop ecs_service (service # services) minimum_number_compliant evaluations event =
     bind (service_eval ecs_service (serviceArn service) minimum_number_compliant
             (serviceName service) evaluations event)
       (\<lambda>evaluations'. services_loop ecs_service services minimum_number_compliant
                          evaluations' event)"

text \<open>The body of the loop over the clusters, and the loop.\<close>

definition cluster_body ::
  "client \<Rightarrow> string \<Rightarrow> int \<Rightarrow> Evaluation list \<Rightarrow> 'event \<Rightarrow> Evaluation list io"
where
  "cluster_body ecs_service cluster minimum_number_compliant evaluations event =
     bind (lift (index0 (findall_nameregex cluster))) (\<lambda>clustername.
     bind (cluster_eval ecs_service cluster minimum_number_compliant clustername evaluations event)
       (\<lambda>evaluations1.
     bind (fetch_all_items (getattr_method ecs_service)
             (Method ''list_services'' (list_services ecs_service)) ''serviceArns''
             [(''cluster'', AStr cluster), (''maxResults'', AInt 100)]) (\<lambda>all_services_in_cluster.
     if length all_services_in_cluster > 0 then
       bind (call_method (Method ''describe_services'' (describe_services ecs_service))
               [(''cluster'', AStr cluster), (''services'', AList all_services_in_cluster)])
         (\<lambda>list_describe_services.
       bind (lift (getitem list_describe_services ''services'')) (\<lambda>services.
       services_loop ecs_service services minimum_number_compliant evaluations1 event))
     else return evaluations1)))"

fun clusters_loop ::
  "client \<Rightarrow> string list \<Rightarrow> int \<Rightarrow> Evaluation list \<Rightarrow> 'event \<Rightarrow> Evaluation list io"
where
  "clusters_loop ecs_service [] minimum_number_compliant evaluations event = return evaluations"
| "clusters_loop ecs_service (cluster # clusters) minimum_number_compliant evaluations event =
     bind (cluster_body ecs_service cluster minimum_number_compliant evaluations event)
       (\<lambda>evaluations'. clusters_loop ecs_service clusters minimum_number_compliant
                          evaluations' event)"

text \<open>
  The client factory builds the client; \<^verbatim>\<open>clean_up_old_evaluations\<close> is the function of
  the rule library that reconciles the batch with the evaluations reported before. Both
  are collaborators and may fail.
\<close>

record client_factory =
  build_client :: "string \<Rightarrow> error + client"

definition evaluate_periodic ::
  "('event \<Rightarrow> client_factory \<Rightarrow> Evaluation list \<Rightarrow> error + unit)
     \<Rightarrow> 'event \<Rightarrow> client_factory \<Rightarrow> Evaluation list io"
where
  "evaluate_periodic clean_up_old_evaluations event factory =
     bind (lift (build_client factory ''ecs'')) (\<lambda>ecs_service.
     bind (fetch_all_items (getattr_method ecs_service)
             (Method ''list_clusters'' (list_clusters ecs_service)) ''clusterArns''
             [(''maxResults'', AInt 100)]) (\<lambda>list_clusters.
     bind (fetch_all_items (getattr_method ecs_service)
             (Method ''list_task_definitions'' (list_task_definitions ecs_service))
             ''taskDefinitionArns'' [(''maxResults'', AInt 100)]) (\<lambda>task_definition_arns.
     bind (task_definitions_loop ecs_service task_definition_arns 3 [] event) (\<lambda>evaluations1.
     bind (clusters_loop ecs_service list_clusters 3 evaluations1 event) (\<lambda>evaluations.
     if evaluations \<noteq> [] then
       bind (lift (clean_up_old_evaluations event factory evaluations)) (\<lambda>_. return evaluations)
     else return [])))))"

section \<open>The words of the specification\<close>

text \<open>
  What the specification says about tag keys, tag values and names, in its own words.
  The properties below compare the functions of the code with these.
\<close>

text \<open>A string contains another one, upper and lower case taken as equal.\<close>

definition contains_ignoring_case :: "string \<Rightarrow> string \<Rightarrow> bool" where
  "contains_ignoring_case sub s = (\<exists>pre mid post. s = pre @ mid @ post \<and> lower mid = lower sub)"

text \<open>The letters \<^verbatim>\<open>uai\<close> followed by seven digits, somewhere in the string.\<close>

definition uai_and_seven_digits :: "string \<Rightarrow> bool" where
  "uai_and_seven_digits v =
     (\<exists>pre ds post. v = pre @ ''uai'' @ ds @ post \<and> length ds = 7 \<and>
        (\<forall>d\<in>set ds. d \<in> set ''0123456789''))"

text \<open>
  From the start of the string, one of the six environment words, followed by a space or
  by the end of the string.
\<close>

definition env_word_then_space_or_end :: "string \<Rightarrow> bool" where
  "env_word_then_space_or_end v =
     (\<exists>w rest. w \<in> {''prd'', ''stg'', ''qa'', ''tst'', ''dev'', ''lab''} \<and> v = w @ rest \<and>
        (rest = [] \<or> (\<exists>r. rest = CHR '' '' # r)))"

text \<open>The same, where the word may also be followed by one line feed that ends the string.\<close>

definition env_word_then_space_end_or_last_line_feed :: "string \<Rightarrow> bool" where
  "env_word_then_space_end_or_last_line_feed v =
     (\<exists>w rest. w \<in> {''prd'', ''stg'', ''qa'', ''tst'', ''dev'', ''lab''} \<and> v = w @ rest \<and>
        (rest = [] \<or> (\<exists>r. rest = CHR '' '' # r) \<or> rest = [CHR 0x0A]))"

text \<open>An entry of the classifier's result that is marked \<^verbatim>\<open>COMPLIANT\<close>.\<close>

fun marked_compliant :: "pyval \<Rightarrow> bool" where
  "marked_compliant (List [Str k, Str v]) = (v = ''COMPLIANT'')"
| "marked_compliant _ = False"

text \<open>The part of a string after its last separator.\<close>

definition after_last_separator :: "string \<Rightarrow> string" where
  "after_last_separator s = rev (takeWhile (\<lambda>c. c \<noteq> CHR ''/'') (rev s))"

text \<open>
  The part of a string after its first separator, up to the next line feed or the end of
  the string.
\<close>

definition after_first_separator :: "string \<Rightarrow> string" where
  "after_first_separator s =
     takeWhile (\<lambda>c. c \<noteq> CHR 0x0A) (tl (dropWhile (\<lambda>c. c \<noteq> CHR ''/'') s))"

section \<open>Notions for the properties of the evaluators\<close>

text \<open>The tag-fetch collaborator, as the three evaluators call it.\<close>

abbreviation fetch_tags :: "client \<Rightarrow> string \<Rightarrow> tag list io" where
  "fetch_tags ecs_service arn \<equiv>
     fetch_all_items (getattr_method ecs_service)
       (Method ''list_tags_for_resource'' (list_tags_for_resource ecs_service)) ''tags''
       [(''resourceArn'', AStr arn)]"






text \<open>A function returns, with a value or with an exception; a function raises an exception.\<close>

definition returns :: "'a io \<Rightarrow> bool" where
  "returns m = (\<exists>r calls. m = Some (r, calls))"

definition raises :: "'a io \<Rightarrow> bool" where
  "raises m = (\<exists>e calls. m = Some (Inl e, calls))"

section \<open>An example fleet\<close>

text \<open>
  Three task definitions and two clusters; the first cluster has no service, the second
  has two, one of them with an identifier of the old format. The first task definition,
  the first cluster and the first service carry three tags that satisfy the three
  patterns; the second task definition carries one tag that satisfies none; nothing
  else is tagged. Every listing fits in one page.
\<close>

definition single_page :: "string \<Rightarrow> 'a list \<Rightarrow> error + 'a response" where
  "single_page response_key items = Inr \<lparr>lists = [response_key \<mapsto> items], NextToken = None\<rparr>"

definition three_tags :: "tag list" where
  "three_tags = [\<lparr>key = ''uai'', value = ''uai1234567''\<rparr>,
                 \<lparr>key = ''env'', value = ''prd''\<rparr>,
                 \<lparr>key = ''Name'', value = ''users''\<rparr>]"

definition example_client :: client where
  "example_client =
     \<lparr>list_clusters = (\<lambda>kw. single_page ''clusterArns'' [''cluster/c1'', ''cluster/c2'']),
      list_task_definitions =
        (\<lambda>kw. single_page ''taskDefinitionArns''
                 [''task-definition/users:1'', ''task-definition/users:2'',
                  ''task-definition/jobs:1'']),
      list_services =
        (\<lambda>kw. single_page ''serviceArns''
                 (if kw = [(''cluster'', AStr ''cluster/c2''), (''maxResults'', AInt 100)]
                  then [''service/c2/api'', ''service/web''] else [])),
      list_tags_for_resource =
        (\<lambda>kw. single_page ''tags''
                 (if kw = [(''resourceArn'', AStr ''task-definition/users:1'')]
                     \<or> kw = [(''resourceArn'', AStr ''cluster/c1'')]
                     \<or> kw = [(''resourceArn'', AStr ''service/c2/api'')]
                  then three_tags
                  else if kw = [(''resourceArn'', AStr ''task-definition/users:2'')]
                  then [\<lparr>key = ''Environment'', value = ''production''\<rparr>]
                  else [])),
      describe_services =
        (\<lambda>kw. single_page ''services''
                 [\<lparr>serviceArn = ''service/c2/api'', serviceName = ''api''\<rparr>,
                  \<lparr>serviceArn = ''service/web'', serviceName = ''web''\<rparr>])\<rparr>"



text \<open>The example fleet with one more cluster, whose identifier has no separator.\<close>

definition example_factory_default_cluster :: client_factory where
  "example_factory_default_cluster =
     \<lparr>build_client =
        (\<lambda>name. Inr (example_client
           \<lparr>list_clusters :=
              (\<lambda>kw. single_page ''clusterArns'' [''cluster/c1'', ''cluster/c2'', ''default''])\<rparr>))\<rparr>"

text \<open>A listing of two pages: the first page carries a token, the second does not.\<close>

definition two_pages :: "kwargs \<Rightarrow> error + string response" where
  "two_pages kw =
     (if kw = [(''maxResults'', AInt 100)]
      then Inr \<lparr>lists = [''clusterArns'' \<mapsto> [''cluster/c1'']], NextToken = Some ''t1''\<rparr>
      else Inr \<lparr>lists = [''clusterArns'' \<mapsto> [''cluster/c2'']], NextToken = None\<rparr>)"

section \<open>Strings and patterns\<close>

lemma re_search_iff: "re_search m s \<longleftrightarrow> (\<exists>pre post. s = pre @ post \<and> m post)"
proof (induction s)
  case Nil
  then show ?case by simp
next
  case (Cons c cs)
  show ?case
  proof
    assume "re_search m (c # cs)"
    then consider "m (c # cs)" | "re_search m cs" by auto
    then show "\<exists>pre post. c # cs = pre @ post \<and> m post"
    proof cases
      case 1
      then have "c # cs = [] @ (c # cs) \<and> m (c # cs)" by simp
      then show ?thesis by blast
    next
      case 2
      with Cons.IH obtain pre post where "cs = pre @ post" "m post" by blast
      then have "c # cs = (c # pre) @ post \<and> m post" by simp
      then show ?thesis by blast
    qed
  next
    assume "\<exists>pre post. c # cs = pre @ post \<and> m post"
    then obtain pre post where h: "c # cs = pre @ post" "m post" by blast
    show "re_search m (c # cs)"
    proof (cases pre)
      case Nil
      with h have "m (c # cs)" by simp
      then show ?thesis by simp
    next
      case (Cons p ps)
      with h have "cs = ps @ post" by simp
      with h(2) Cons.IH show ?thesis by auto
    qed
  qed
qed

lemma str_in_iff: "str_in sub s \<longleftrightarrow> (\<exists>pre post. s = pre @ sub @ post)"
  unfolding str_in_def re_search_iff prefix_def by blast

lemma contains_ignoring_case_iff:
  "contains_ignoring_case sub s \<longleftrightarrow> str_in (lower sub) (lower s)"
proof
  assume "contains_ignoring_case sub s"
  then obtain pre mid post where "s = pre @ mid @ post" "lower mid = lower sub"
    unfolding contains_ignoring_case_def by blast
  then have "lower s = lower pre @ lower sub @ lower post" by (simp add: lower_def)
  then show "str_in (lower sub) (lower s)" unfolding str_in_iff by blast
next
  assume "str_in (lower sub) (lower s)"
  then obtain a b where "map lower_char s = a @ lower sub @ b"
    unfolding str_in_iff lower_def by blast
  then obtain pre rest where 1: "s = pre @ rest" "map lower_char rest = lower sub @ b"
    by (metis map_eq_append_conv)
  from 1(2) obtain mid post where 2: "rest = mid @ post" "map lower_char mid = lower sub"
    by (metis map_eq_append_conv)
  with 1 show "contains_ignoring_case sub s"
    unfolding contains_ignoring_case_def lower_def by blast
qed

lemma digit_iff: "digit d \<longleftrightarrow> d \<in> set ''0123456789''"
  by (cases d) (auto simp: digit_def)

lemma uai_value_regex_filter_iff:
  "uai_value_regex_filter s \<longleftrightarrow> (\<exists>ds post. s = ''uai'' @ ds @ post \<and> length ds = 7 \<and> (\<forall>d\<in>set ds. digit d))"
proof
  assume h: "uai_value_regex_filter s"
  then obtain r where r: "s = ''uai'' @ r" unfolding uai_value_regex_filter_def prefix_def by blast
  with h have "length (take 7 r) = 7" "\<forall>d\<in>set (take 7 r). digit d"
    unfolding uai_value_regex_filter_def by (simp_all add: list_all_iff)
  moreover have "s = ''uai'' @ take 7 r @ drop 7 r" using r by simp
  ultimately show "\<exists>ds post. s = ''uai'' @ ds @ post \<and> length ds = 7 \<and> (\<forall>d\<in>set ds. digit d)"
    by blast
next
  assume "\<exists>ds post. s = ''uai'' @ ds @ post \<and> length ds = 7 \<and> (\<forall>d\<in>set ds. digit d)"
  then obtain ds post where "s = ''uai'' @ ds @ post" "length ds = 7" "\<forall>d\<in>set ds. digit d" by blast
  then show "uai_value_regex_filter s"
    unfolding uai_value_regex_filter_def by (simp add: list_all_iff)
qed

lemma search_uai_iff: "re_search uai_value_regex_filter v \<longleftrightarrow> uai_and_seven_digits v"
  unfolding re_search_iff uai_value_regex_filter_iff uai_and_seven_digits_def digit_iff
  by blast

lemma tag_regex_filtering_loop_eq:
  "tag_regex_filtering_loop tags acc = acc @ map tag_checked tags"
  by (induction tags arbitrary: acc) simp_all

lemma tag_regex_filtering_eq: "tag_regex_filtering tags = map tag_checked tags"
  by (simp add: tag_regex_filtering_def tag_regex_filtering_loop_eq)

section \<open>The tag classifier\<close>

lemma lower_uai: "lower ''uai'' = ''uai''" "lower ''env'' = ''env''"
  by (simp_all add: lower_def lower_char_def)

text \<open>
  Claim C6. A tag whose key contains \<^verbatim>\<open>uai\<close>, in upper or lower case, is marked
  \<^verbatim>\<open>COMPLIANT\<close> when its value holds \<^verbatim>\<open>uai\<close> followed by seven digits somewhere, and
  \<^verbatim>\<open>NON_COMPLIANT\<close> otherwise. The value \<^verbatim>\<open>uai1234567\<close> is of the first kind and
  \<^verbatim>\<open>uai123\<close> of the second. The entry of the tag at position \<open>i\<close> is the entry at
  position \<open>i\<close> of the classifier's result.
\<close>

theorem uai_tag_classified:
  assumes "i < length tags" and "contains_ignoring_case ''uai'' (key (tags ! i))"
  shows "tag_regex_filtering tags ! i =
           List [Str (key (tags ! i)),
                 Str (if uai_and_seven_digits (value (tags ! i))
                      then ''COMPLIANT'' else ''NON_COMPLIANT'')]
         \<and> uai_and_seven_digits ''uai1234567'' \<and> \<not> uai_and_seven_digits ''uai123''"
proof -
  from assms(2) have "str_in ''uai'' (lower (key (tags ! i)))"
    by (simp add: contains_ignoring_case_iff lower_uai)
  with assms(1) have "tag_regex_filtering tags ! i =
           List [Str (key (tags ! i)),
                 Str (if uai_and_seven_digits (value (tags ! i))
                      then ''COMPLIANT'' else ''NON_COMPLIANT'')]"
    by (simp add: tag_regex_filtering_eq tag_checked_def search_uai_iff)
  moreover have "uai_and_seven_digits ''uai1234567''"
    unfolding search_uai_iff [symmetric] by (simp add: uai_value_regex_filter_def digit_def)
  moreover have "\<not> uai_and_seven_digits ''uai123''"
    unfolding search_uai_iff [symmetric] by (simp add: uai_value_regex_filter_def)
  ultimately show ?thesis by blast
qed

text \<open>
  Claim C6 at a concrete input: the second tag of a list of two, with key
  \<^verbatim>\<open>Owner-UAI\<close> and a value that holds \<^verbatim>\<open>uai\<close> and eight digits.
\<close>

theorem uai_tag_classified_witness:
  "(1::nat) < length [\<lparr>key = ''uai-tag'', value = ''uai1234567''\<rparr>,
                       \<lparr>key = ''Owner-UAI'', value = ''xuai12345678''\<rparr>]
   \<and> contains_ignoring_case ''uai'' ''Owner-UAI''
   \<and> tag_regex_filtering [\<lparr>key = ''uai-tag'', value = ''uai1234567''\<rparr>,
                           \<lparr>key = ''Owner-UAI'', value = ''xuai12345678''\<rparr>] ! 1
       = List [Str ''Owner-UAI'', Str ''COMPLIANT'']"
proof -
  have c: "contains_ignoring_case ''uai'' ''Owner-UAI''"
    by (simp add: contains_ignoring_case_iff str_in_def lower_def lower_char_def)
  have u: "uai_and_seven_digits ''xuai12345678''"
    unfolding search_uai_iff [symmetric] by (simp add: uai_value_regex_filter_def digit_def)
  show ?thesis
    using uai_tag_classified [of 1 "[\<lparr>key = ''uai-tag'', value = ''uai1234567''\<rparr>,
                       \<lparr>key = ''Owner-UAI'', value = ''xuai12345678''\<rparr>]"] c u
    by simp
qed

lemma env_value_regex_filter_iff:
  "env_value_regex_filter v \<longleftrightarrow> env_word_then_space_end_or_last_line_feed v"
proof -
  define Q :: "string \<Rightarrow> bool"
    where "Q rest \<longleftrightarrow> rest = [] \<or> (\<exists>r. rest = CHR '' '' # r) \<or> rest = [CHR 0x0A]" for rest
  have 1: "((rest \<noteq> [] \<and> hd rest = CHR '' '') \<or> dollar rest) \<longleftrightarrow> Q rest" for rest
    unfolding Q_def dollar_def LF_def by (cases rest) auto
  have 2: "(prefix w v \<and> Q (drop (length w) v)) \<longleftrightarrow> (\<exists>rest. v = w @ rest \<and> Q rest)" for w
    by (auto simp: prefix_def)
  have 3: "set env_words = {''prd'', ''stg'', ''qa'', ''tst'', ''dev'', ''lab''}"
    unfolding env_words_def by (simp only: list.set)
  have 4: "(\<exists>w\<in>S. \<exists>rest. v = w @ rest \<and> Q rest) \<longleftrightarrow> (\<exists>w rest. w \<in> S \<and> v = w @ rest \<and> Q rest)"
    for S by blast
  have "env_value_regex_filter v \<longleftrightarrow> (\<exists>w\<in>set env_words. \<exists>rest. v = w @ rest \<and> Q rest)"
    unfolding env_value_regex_filter_def list_ex_iff Let_def 1 2 ..
  also have "\<dots> \<longleftrightarrow> (\<exists>w rest. w \<in> {''prd'', ''stg'', ''qa'', ''tst'', ''dev'', ''lab''} \<and>
      v = w @ rest \<and> Q rest)"
    unfolding 3 by (rule 4)
  also have "\<dots> \<longleftrightarrow> env_word_then_space_end_or_last_line_feed v"
    unfolding env_word_then_space_end_or_last_line_feed_def Q_def ..
  finally show ?thesis .
qed

text \<open>
  Claim C7, as the code has it. A tag whose key does not contain \<^verbatim>\<open>uai\<close> but contains
  \<^verbatim>\<open>env\<close>, in upper or lower case, is marked \<^verbatim>\<open>COMPLIANT\<close> when its value starts
  with one of \<^verbatim>\<open>prd\<close>, \<^verbatim>\<open>stg\<close>, \<^verbatim>\<open>qa\<close>, \<^verbatim>\<open>tst\<close>, \<^verbatim>\<open>dev\<close>, \<^verbatim>\<open>lab\<close>
  and the word is followed by a space, by the end of the string, or by one line feed
  that ends the string; it is marked \<^verbatim>\<open>NON_COMPLIANT\<close> otherwise. The value
  \<^verbatim>\<open>prd\<close> is of the first kind and \<^verbatim>\<open>production\<close> of the second.
\<close>

theorem env_tag_classified:
  assumes "i < length tags"
    and "\<not> contains_ignoring_case ''uai'' (key (tags ! i))"
    and "contains_ignoring_case ''env'' (key (tags ! i))"
  shows "tag_regex_filtering tags ! i =
           List [Str (key (tags ! i)),
                 Str (if env_word_then_space_end_or_last_line_feed (value (tags ! i))
                      then ''COMPLIANT'' else ''NON_COMPLIANT'')]
         \<and> env_word_then_space_end_or_last_line_feed ''prd''
         \<and> \<not> env_word_then_space_end_or_last_line_feed ''production''"
proof -
  from assms(2,3) have "\<not> str_in ''uai'' (lower (key (tags ! i)))"
      "str_in ''env'' (lower (key (tags ! i)))"
    by (simp_all add: contains_ignoring_case_iff lower_uai)
  with assms(1) have "tag_regex_filtering tags ! i =
           List [Str (key (tags ! i)),
                 Str (if env_word_then_space_end_or_last_line_feed (value (tags ! i))
                      then ''COMPLIANT'' else ''NON_COMPLIANT'')]"
    by (simp add: tag_regex_filtering_eq tag_checked_def env_value_regex_filter_iff)
  moreover have "env_word_then_space_end_or_last_line_feed ''prd''"
    unfolding env_value_regex_filter_iff [symmetric]
    by (simp add: env_value_regex_filter_def env_words_def dollar_def)
  moreover have "\<not> env_word_then_space_end_or_last_line_feed ''production''"
    unfolding env_value_regex_filter_iff [symmetric]
    by (simp add: env_value_regex_filter_def env_words_def dollar_def)
  ultimately show ?thesis by blast
qed

text \<open>
  Claim C7 at a concrete input: the key \<^verbatim>\<open>Environment\<close> with the value
  \<^verbatim>\<open>dev cluster\<close>.
\<close>

theorem env_tag_classified_witness:
  "(0::nat) < length [\<lparr>key = ''Environment'', value = ''dev cluster''\<rparr>]
   \<and> \<not> contains_ignoring_case ''uai'' ''Environment''
   \<and> contains_ignoring_case ''env'' ''Environment''
   \<and> tag_regex_filtering [\<lparr>key = ''Environment'', value = ''dev cluster''\<rparr>] ! 0
       = List [Str ''Environment'', Str ''COMPLIANT'']"
proof -
  have c: "\<not> contains_ignoring_case ''uai'' ''Environment''"
      "contains_ignoring_case ''env'' ''Environment''"
    by (simp_all add: contains_ignoring_case_iff str_in_def lower_def lower_char_def)
  have u: "env_word_then_space_end_or_last_line_feed ''dev cluster''"
    unfolding env_value_regex_filter_iff [symmetric]
    by (simp add: env_value_regex_filter_def env_words_def dollar_def)
  show ?thesis
    using env_tag_classified [of 0 "[\<lparr>key = ''Environment'', value = ''dev cluster''\<rparr>]"] c u
    by simp
qed

text \<open>
  Claim C7 as the specification states it fails where the value is an environment word
  and a line feed: \<^verbatim>\<open>$\<close> matches before a line feed that ends the string, so the tag
  is marked \<^verbatim>\<open>COMPLIANT\<close>, although the word is followed neither by a space nor by the
  end of the string.
\<close>

theorem env_tag_line_feed_counterexample:
  "\<not> contains_ignoring_case ''uai'' ''Environment''
   \<and> contains_ignoring_case ''env'' ''Environment''
   \<and> tag_regex_filtering [\<lparr>key = ''Environment'', value = ''prd'' @ [CHR 0x0A]\<rparr>]
       = [List [Str ''Environment'', Str ''COMPLIANT'']]
   \<and> \<not> env_word_then_space_or_end (''prd'' @ [CHR 0x0A])"
proof -
  have c: "\<not> contains_ignoring_case ''uai'' ''Environment''"
      "contains_ignoring_case ''env'' ''Environment''"
    by (simp_all add: contains_ignoring_case_iff str_in_def lower_def lower_char_def)
  have t: "tag_regex_filtering [\<lparr>key = ''Environment'', value = ''prd'' @ [CHR 0x0A]\<rparr>]
       = [List [Str ''Environment'', Str ''COMPLIANT'']]"
    by (simp add: tag_regex_filtering_def tag_checked_def str_in_def lower_def lower_char_def
        env_value_regex_filter_def env_words_def dollar_def LF_def)
  have n: "\<not> env_word_then_space_or_end (''prd'' @ [CHR 0x0A])"
    unfolding env_word_then_space_or_end_def by auto
  from c t n show ?thesis by blast
qed

section \<open>Calls and results\<close>

lemma bind_simps:
  "bind None f = None"
  "bind (Some (Inl e, cs)) f = Some (Inl e, cs)"
  "bind (Some (Inr x, cs)) f = (case f x of None \<Rightarrow> None | Some (r, cs') \<Rightarrow> Some (r, cs @ cs'))"
  by (simp_all add: bind_def)

lemma bind_return: "bind (return x) f = f x"
  by (cases "f x") (auto simp: bind_def return_def)

lemma bind_lift:
  "bind (lift (Inr x)) f = f x"
  "bind (lift (Inl e)) f = Some (Inl e, [])"
  by (cases "f x") (auto simp: bind_def lift_def)


lemma fetch_all_items_loop_None:
  "fetch_all_items_loop None response_key items next_token calls =
     (if next_token = None \<or> next_token = Some [] then Some (Inr items, calls)
      else Some (Inl (AttributeError ''method''), calls))"
  by (subst fetch_all_items_loop.simps) (simp split: option.splits)

lemma fetch_all_items_ecs:
  "fetch_all_items (getattr_method ecs) m response_key kw =
     (case invoke m kw of
        Inl e \<Rightarrow> Some (Inl e, [Call (method_name m) kw])
      | Inr response \<Rightarrow>
          (case getitem response response_key of
             Inl e \<Rightarrow> Some (Inl e, [Call (method_name m) kw])
           | Inr items \<Rightarrow>
               if NextToken response = None \<or> NextToken response = Some []
               then Some (Inr items, [Call (method_name m) kw])
               else Some (Inl (AttributeError ''method''), [Call (method_name m) kw])))"
proof -
  have "(if kw \<noteq> [] then invoke m kw else invoke m []) = invoke m kw" by simp
  then show ?thesis
    by (simp add: fetch_all_items_def getattr_method_def fetch_all_items_loop_None
        split: sum.splits)
qed

lemma fetch_all_items_ecs_returns:
  "\<exists>r. fetch_all_items (getattr_method ecs) m response_key kw = Some (r, [Call (method_name m) kw])"
  by (simp add: fetch_all_items_ecs split: sum.splits)

section \<open>Name extraction\<close>

lemma findall_nameregex_eq:
  "findall_nameregex s =
     (if CHR ''/'' \<in> set s
      then after_first_separator s
             # findall_nameregex (dropWhile (\<lambda>d. d \<noteq> CHR 0x0A) (tl (dropWhile (\<lambda>c. c \<noteq> CHR ''/'') s)))
      else [])"
  by (induction s) (simp_all add: after_first_separator_def LF_def)

lemma index0_findall_nameregex:
  "index0 (findall_nameregex s) =
     (if CHR ''/'' \<in> set s then Inr (after_first_separator s) else Inl IndexError)"
  by (subst findall_nameregex_eq) (simp add: index0_def)

lemma takeWhile_until:
  "x \<notin> set xs \<Longrightarrow> takeWhile (\<lambda>c. c \<noteq> x) (xs @ x # ys) = xs"
  by (induction xs) auto

lemma dropWhile_until:
  "x \<notin> set xs \<Longrightarrow> dropWhile (\<lambda>c. c \<noteq> x) (xs @ x # ys) = x # ys"
  by (induction xs) auto

lemma takeWhile_all: "x \<notin> set xs \<Longrightarrow> takeWhile (\<lambda>c. c \<noteq> x) xs = xs"
  by (induction xs) auto

lemma one_separator:
  assumes "count_list s (CHR ''/'') = 1" and "CHR 0x0A \<notin> set s"
  shows "after_first_separator s = after_last_separator s"
proof -
  from assms(1) have "CHR ''/'' \<in> set s"
    by (metis count_list_0_iff zero_neq_one)
  then obtain a b where s: "s = a @ CHR ''/'' # b" "CHR ''/'' \<notin> set a"
    by (meson split_list_first)
  with assms(1) have b: "CHR ''/'' \<notin> set b"
    by (simp add: count_list_0_iff)
  from s assms(2) have "CHR 0x0A \<notin> set b" by simp
  then have "takeWhile (\<lambda>c. c \<noteq> CHR 0x0A) b = b"
    by (rule takeWhile_all)
  moreover from s(2) have "dropWhile (\<lambda>c. c \<noteq> CHR ''/'') (a @ CHR ''/'' # b) = CHR ''/'' # b"
    by (rule dropWhile_until)
  ultimately have 1: "after_first_separator s = b"
    by (simp add: after_first_separator_def s(1))
  from b have "takeWhile (\<lambda>c. c \<noteq> CHR ''/'') (rev b @ CHR ''/'' # rev a) = rev b"
    by (simp add: takeWhile_until)
  then have "after_last_separator s = b"
    by (simp add: after_last_separator_def s(1))
  with 1 show ?thesis by simp
qed

lemma slashes_eq: "slashes s = int (count_list s (CHR ''/''))"
  by (induction s) (simp_all add: slashes_def str_in_def)

section \<open>The evaluators\<close>

lemma taskDefinition_eval_no_separator:
  "CHR ''/'' \<notin> set arn \<Longrightarrow> taskDefinition_eval ecs arn n evs event = Some (Inl IndexError, [])"
  by (simp add: taskDefinition_eval_def index0_findall_nameregex bind_lift)

lemma taskDefinition_eval_tags:
  assumes "CHR ''/'' \<in> set arn" and "fetch_tags ecs arn = Some (Inr tags, calls)"
  shows "taskDefinition_eval ecs arn n evs event =
           Some (Inr (evs @ [mk_Evaluation NON_COMPLIANT arn ''AWS::ECS::TaskDefinition''
             (take 255
               (if tags = [] then no_tags_str (after_first_separator arn)
                else if str_count (repr (List (tag_regex_filtering tags))) '' 'COMPLIANT']'' = n
                then compliant_str (after_first_separator arn)
                else non_compliant_str (after_first_separator arn)
                       (repr (List (tag_regex_filtering tags)))))]), calls)"
  using assms
  by (simp add: taskDefinition_eval_def index0_findall_nameregex bind_lift bind_simps return_def)

lemma taskDefinition_eval_returns:
  "\<exists>r calls. taskDefinition_eval ecs arn n evs event = Some (r, calls)"
proof (cases "CHR ''/'' \<in> set arn")
  case False
  then show ?thesis by (simp add: taskDefinition_eval_no_separator)
next
  case True
  obtain r where r: "fetch_tags ecs arn = Some (r, [Call ''list_tags_for_resource'' [(''resourceArn'', AStr arn)]])"
    using fetch_all_items_ecs_returns [of ecs "Method ''list_tags_for_resource'' (list_tags_for_resource ecs)"]
    by auto
  show ?thesis
  proof (cases r)
    case (Inl e)
    with r True show ?thesis
      by (simp add: taskDefinition_eval_def index0_findall_nameregex bind_lift bind_simps)
  next
    case (Inr tags)
    with r True show ?thesis by (simp add: taskDefinition_eval_tags)
  qed
qed



lemma fetch_tags_returns:
  "\<exists>r. fetch_tags ecs arn =
         Some (r, [Call ''list_tags_for_resource'' [(''resourceArn'', AStr arn)]])"
  using fetch_all_items_ecs_returns
    [of ecs "Method ''list_tags_for_resource'' (list_tags_for_resource ecs)"]
  by simp

lemma service_eval_legacy:
  "\<not> 1 < slashes arn \<Longrightarrow>
   service_eval ecs arn n name evs event =
     Some (Inr (evs @ [mk_Evaluation NON_COMPLIANT arn ''AWS::ECS::Service''
                         (take 255 (old_arn_str name))]), [])"
  by (simp add: service_eval_def return_def)

lemma service_eval_tags:
  assumes "1 < slashes arn" and "fetch_tags ecs arn = Some (Inr tags, calls)"
  shows "service_eval ecs arn n name evs event =
           Some (Inr (evs @ [mk_Evaluation NON_COMPLIANT arn ''AWS::ECS::Service''
             (take 255
               (if tags = [] then no_tags_str name
                else if str_count (repr (List (tag_regex_filtering tags))) '' 'COMPLIANT']'' = n
                then compliant_str name
                else non_compliant_str name (repr (List (tag_regex_filtering tags)))))]), calls)"
  using assms by (simp add: service_eval_def bind_simps return_def)

lemma service_eval_error:
  assumes "1 < slashes arn" and "fetch_tags ecs arn = Some (Inl e, calls)"
  shows "service_eval ecs arn n name evs event = Some (Inl e, calls)"
  using assms by (simp add: service_eval_def bind_simps)

lemma service_eval_returns:
  "\<exists>r calls. service_eval ecs arn n name evs event = Some (r, calls)"
proof (cases "1 < slashes arn")
  case False
  then show ?thesis by (simp add: service_eval_legacy)
next
  case True
  obtain r where r: "fetch_tags ecs arn =
      Some (r, [Call ''list_tags_for_resource'' [(''resourceArn'', AStr arn)]])"
    using fetch_tags_returns by blast
  show ?thesis
  proof (cases r)
    case (Inl e)
    with r True show ?thesis by (simp add: service_eval_error)
  next
    case (Inr tags)
    with r True show ?thesis by (simp add: service_eval_tags)
  qed
qed


lemma cluster_eval_tags:
  assumes "fetch_tags ecs arn = Some (Inr tags, calls)"
  shows "cluster_eval ecs arn n name evs event =
           Some (Inr (evs @ [mk_Evaluation
             (if tags \<noteq> [] \<and>
                 str_count (repr (List (tag_regex_filtering tags))) '' 'COMPLIANT']'' = n
              then COMPLIANT else NON_COMPLIANT) arn ''AWS::ECS::Cluster''
             (take 255
               (if tags = [] then no_tags_str name
                else if str_count (repr (List (tag_regex_filtering tags))) '' 'COMPLIANT']'' = n
                then compliant_str name
                else non_compliant_str name (repr (List (tag_regex_filtering tags)))))]), calls)"
  using assms by (simp add: cluster_eval_def bind_simps return_def)

lemma cluster_eval_error:
  assumes "fetch_tags ecs arn = Some (Inl e, calls)"
  shows "cluster_eval ecs arn n name evs event = Some (Inl e, calls)"
  using assms by (simp add: cluster_eval_def bind_simps)

lemma cluster_eval_returns:
  "\<exists>r calls. cluster_eval ecs arn n name evs event = Some (r, calls)"
proof -
  obtain r where r: "fetch_tags ecs arn =
      Some (r, [Call ''list_tags_for_resource'' [(''resourceArn'', AStr arn)]])"
    using fetch_tags_returns by blast
  show ?thesis
  proof (cases r)
    case (Inl e)
    with r show ?thesis by (simp add: cluster_eval_error)
  next
    case (Inr tags)
    with r show ?thesis by (simp add: cluster_eval_tags)
  qed
qed







section \<open>Counting the compliant tags in the printed result\<close>

lemma count_from_skip:
  "c \<noteq> CHR '' '' \<Longrightarrow> count_from '' 'COMPLIANT']'' (c # s) = count_from '' 'COMPLIANT']'' s"
  by simp

lemma count_from_space:
  "c \<noteq> CHR 0x27 \<Longrightarrow>
   count_from '' 'COMPLIANT']'' (CHR '' '' # c # s) = count_from '' 'COMPLIANT']'' (c # s)"
  by simp

lemma count_from_no_apostrophe:
  assumes "CHR 0x27 \<notin> set w"
  shows "count_from '' 'COMPLIANT']'' (w @ s) =
           count_from '' 'COMPLIANT']''
             ((if w \<noteq> [] \<and> last w = CHR '' '' then '' '' else []) @ s)"
  using assms
proof (induction w)
  case Nil
  show ?case by simp
next
  case (Cons c w)
  show ?case
  proof (cases w)
    case Nil
    then show ?thesis by (cases "c = CHR '' ''") simp_all
  next
    case (Cons c' w')
    with Cons.prems have "c' \<noteq> CHR 0x27" by auto
    then have "count_from '' 'COMPLIANT']'' (c # c' # w' @ s)
                 = count_from '' 'COMPLIANT']'' (c' # w' @ s)"
      by simp
    with Cons.IH Cons.prems Cons show ?thesis by simp
  qed
qed

lemma hexdigit_no_apostrophe: "n < 16 \<Longrightarrow> hexdigit n \<noteq> CHR 0x27"
proof -
  assume "n < 16"
  then have "hexdigit n \<in> set ''0123456789abcdef''"
    unfolding hexdigit_def by (intro nth_mem) simp
  then show ?thesis by auto
qed

lemma repr_char_no_apostrophe:
  assumes "c \<noteq> CHR 0x27"
  shows "CHR 0x27 \<notin> set (repr_char (CHR 0x27) c)"
proof -
  have "(of_char c :: nat) < 16 * 16" using nat_of_char_less_256 [of c] by simp
  then have "(of_char c :: nat) div 16 < 16" by (rule less_mult_imp_div_less)
  then have 1: "CHR 0x27 \<noteq> hexdigit (of_char c div 16)"
    by (rule hexdigit_no_apostrophe [THEN not_sym])
  have "(of_char c :: nat) mod 16 < 16" by simp
  then have 2: "CHR 0x27 \<noteq> hexdigit (of_char c mod 16)"
    by (rule hexdigit_no_apostrophe [THEN not_sym])
  have "set (repr_char (CHR 0x27) c) \<subseteq>
          {backslash, c, CHR ''t'', CHR ''n'', CHR ''r'', CHR ''x'',
           hexdigit (of_char c div 16), hexdigit (of_char c mod 16)}"
    by (simp add: repr_char_def Let_def)
  moreover from assms 1 2
  have "CHR 0x27 \<notin> {backslash, c, CHR ''t'', CHR ''n'', CHR ''r'', CHR ''x'',
           hexdigit (of_char c div 16), hexdigit (of_char c mod 16)}"
    by (simp add: backslash_def)
  ultimately show ?thesis by blast
qed

lemma repr_str_no_apostrophe:
  assumes "CHR 0x27 \<notin> set k"
  shows "\<exists>w. CHR 0x27 \<notin> set w \<and> repr_str k = CHR 0x27 # w @ [CHR 0x27]"
proof -
  from assms have q: "repr_quote k = CHR 0x27" by (simp add: repr_quote_def apostrophe_def)
  have "CHR 0x27 \<notin> set (repr_char (CHR 0x27) x)" if "x \<in> set k" for x
  proof -
    from that assms have "x \<noteq> CHR 0x27" by auto
    then show ?thesis by (rule repr_char_no_apostrophe)
  qed
  then have "CHR 0x27 \<notin> set (concat (map (repr_char (CHR 0x27)) k))" by auto
  moreover from q have "repr_str k = CHR 0x27 # concat (map (repr_char (CHR 0x27)) k) @ [CHR 0x27]"
    by (simp add: repr_str_def Let_def)
  ultimately show ?thesis by blast
qed


lemma repr_verdicts:
  "repr_str ''COMPLIANT'' = CHR 0x27 # ''COMPLIANT'' @ [CHR 0x27]"
  "repr_str ''NON_COMPLIANT'' = CHR 0x27 # ''NON_COMPLIANT'' @ [CHR 0x27]"
  "repr_str ''NO_TAGS'' = CHR 0x27 # ''NO_TAGS'' @ [CHR 0x27]"
  by (simp_all add: repr_str_def repr_quote_def repr_char_def apostrophe_def double_quote_def
      backslash_def LF_def Let_def)

lemma tag_checked_cases:
  "tag_checked t = List [Str (key t), Str ''COMPLIANT'']
   \<or> tag_checked t = List [Str (key t), Str ''NON_COMPLIANT'']
   \<or> tag_checked t = Str ''NO_TAGS''"
  by (simp add: tag_checked_def)

lemma count_from_entry:
  assumes "CHR 0x27 \<notin> set (key t)"
  shows "count_from '' 'COMPLIANT']'' (repr (tag_checked t) @ s) =
           (if marked_compliant (tag_checked t) then 1 else 0) + count_from '' 'COMPLIANT']'' s"
proof -
  from repr_str_no_apostrophe [OF assms] obtain w
    where w: "CHR 0x27 \<notin> set w" "repr_str (key t) = CHR 0x27 # w @ [CHR 0x27]" by blast
  define sp where "sp = (if w \<noteq> [] \<and> last w = CHR '' '' then '' '' else [])"
  have sp: "sp = [] \<or> sp = '' ''" by (simp add: sp_def)
  have skip: "count_from '' 'COMPLIANT']'' (CHR ''['' # CHR 0x27 # w @ r) =
                count_from '' 'COMPLIANT']'' (sp @ r)" for r
    using count_from_no_apostrophe [OF w(1), of r] by (simp add: sp_def)
  from tag_checked_cases [of t] show ?thesis
  proof (elim disjE)
    assume c: "tag_checked t = List [Str (key t), Str ''COMPLIANT'']"
    have "count_from '' 'COMPLIANT']'' (sp @ CHR 0x27 # '', '' @ CHR 0x27 # ''COMPLIANT''
            @ CHR 0x27 # CHR '']'' # s) = Suc (count_from '' 'COMPLIANT']'' s)"
      using sp by auto
    with c w(2) skip show ?thesis by (simp add: repr_verdicts)
  next
    assume c: "tag_checked t = List [Str (key t), Str ''NON_COMPLIANT'']"
    have "count_from '' 'COMPLIANT']'' (sp @ CHR 0x27 # '', '' @ CHR 0x27 # ''NON_COMPLIANT''
            @ CHR 0x27 # CHR '']'' # s) = count_from '' 'COMPLIANT']'' s"
      using sp by auto
    with c w(2) skip show ?thesis by (simp add: repr_verdicts)
  next
    assume c: "tag_checked t = Str ''NO_TAGS''"
    then show ?thesis by (simp add: repr_verdicts)
  qed
qed

lemma count_from_separator:
  "count_from '' 'COMPLIANT']'' ('', '' @ repr (tag_checked t) @ s) =
     count_from '' 'COMPLIANT']'' (repr (tag_checked t) @ s)"
  using tag_checked_cases [of t] by (auto simp: repr_verdicts)

lemma count_from_join:
  assumes "\<forall>t\<in>set tags. CHR 0x27 \<notin> set (key t)"
  shows "count_from '' 'COMPLIANT']'' (join '', '' (map repr (map tag_checked tags)) @ s) =
           length (filter marked_compliant (map tag_checked tags))
             + count_from '' 'COMPLIANT']'' s"
  using assms
proof (induction tags)
  case Nil
  show ?case by simp
next
  case (Cons t tags)
  from Cons.prems have k: "CHR 0x27 \<notin> set (key t)" by simp
  show ?case
  proof (cases tags)
    case Nil
    with count_from_entry [OF k, of s] show ?thesis by simp
  next
    case (Cons t' tags')
    have "join '', '' (map repr (map tag_checked (t # tags))) @ s =
            repr (tag_checked t) @ '', '' @ join '', '' (map repr (map tag_checked tags)) @ s"
      using Cons by simp
    moreover have "count_from '' 'COMPLIANT']''
            ('', '' @ join '', '' (map repr (map tag_checked tags)) @ s) =
          count_from '' 'COMPLIANT']'' (join '', '' (map repr (map tag_checked tags)) @ s)"
    proof -
      obtain r where r: "join '', '' (map repr (map tag_checked tags)) = repr (tag_checked t') @ r"
        using Cons by (cases tags') auto
      from count_from_separator [of t' "r @ s"] show ?thesis
        unfolding r by (simp only: append_assoc)
    qed
    ultimately show ?thesis
      using count_from_entry [OF k] Cons.IH Cons.prems by simp
  qed
qed

lemma compliance_count:
  assumes "\<forall>t\<in>set tags. CHR 0x27 \<notin> set (key t)"
  shows "str_count (repr (List (tag_regex_filtering tags))) '' 'COMPLIANT']'' =
           int (length (filter marked_compliant (tag_regex_filtering tags)))"
proof -
  have "count_from '' 'COMPLIANT']''
          (CHR ''['' # join '', '' (map repr (map tag_checked tags)) @ '']'') =
        length (filter marked_compliant (map tag_checked tags))"
    using count_from_join [OF assms, of "'']''"] by simp
  then show ?thesis by (simp add: str_count_def tag_regex_filtering_eq)
qed

section \<open>The loops of one pass\<close>

lemma raises_returns: "raises m \<Longrightarrow> returns m"
  unfolding raises_def returns_def by blast

lemma returns_simps:
  "returns (return x)" "returns (lift r)" "returns (call_method bm kw)"
  "returns (fetch_all_items (getattr_method ecs) bm response_key kw)"
  unfolding returns_def return_def lift_def call_method_def
  using fetch_all_items_ecs_returns [of ecs bm response_key kw] by auto

lemma returns_bind:
  assumes "returns m" and "\<And>x. returns (f x)"
  shows "returns (bind m f)"
proof -
  from assms(1) obtain r cs where m: "m = Some (r, cs)" unfolding returns_def by blast
  show ?thesis
  proof (cases r)
    case (Inl e)
    with m show ?thesis by (simp add: bind_simps returns_def)
  next
    case (Inr x)
    from assms(2) [of x] obtain r' cs' where "f x = Some (r', cs')"
      unfolding returns_def by blast
    with Inr m show ?thesis by (simp add: bind_simps returns_def)
  qed
qed

lemma raises_bind:
  assumes "returns m" and "\<And>x. raises (f x)"
  shows "raises (bind m f)"
proof -
  from assms(1) obtain r cs where m: "m = Some (r, cs)" unfolding returns_def by blast
  show ?thesis
  proof (cases r)
    case (Inl e)
    with m show ?thesis by (simp add: bind_simps raises_def)
  next
    case (Inr x)
    from assms(2) [of x] obtain e cs' where "f x = Some (Inl e, cs')"
      unfolding raises_def by blast
    with Inr m show ?thesis by (simp add: bind_simps raises_def)
  qed
qed

lemma raises_bind_first: "raises m \<Longrightarrow> raises (bind m f)"
  unfolding raises_def by (auto simp: bind_simps)

lemma evaluators_return:
  "returns (taskDefinition_eval ecs arn n evs event)"
  "returns (service_eval ecs arn n name evs event)"
  "returns (cluster_eval ecs arn n name evs event)"
  unfolding returns_def
  using taskDefinition_eval_returns [of ecs arn n evs event]
    service_eval_returns [of ecs arn n name evs event]
    cluster_eval_returns [of ecs arn n name evs event]
  by auto


subsection \<open>The loop over the task definitions\<close>

lemma task_definitions_loop_returns:
  "returns (task_definitions_loop ecs tds n evs event)"
  by (induction tds arbitrary: evs) (simp_all add: returns_simps returns_bind evaluators_return)

lemma task_definitions_loop_no_separator:
  assumes "arn \<in> set tds" and "CHR ''/'' \<notin> set arn"
  shows "raises (task_definitions_loop ecs tds n evs event)"
  using assms(1)
proof (induction tds arbitrary: evs)
  case Nil
  then show ?case by simp
next
  case (Cons td tds)
  show ?case
  proof (cases "td = arn")
    case True
    with assms(2) show ?thesis
      by (simp add: taskDefinition_eval_no_separator bind_simps raises_def)
  next
    case False
    with Cons.prems have "arn \<in> set tds" by simp
    then have "raises (task_definitions_loop ecs tds n evs' event)" for evs'
      by (rule Cons.IH)
    then show ?thesis by (simp add: raises_bind evaluators_return)
  qed
qed



subsection \<open>The loop over the services\<close>

lemma services_loop_returns:
  "returns (services_loop ecs services n evs event)"
  by (induction services arbitrary: evs) (simp_all add: returns_simps returns_bind evaluators_return)




subsection \<open>The loop over the clusters\<close>

lemma cluster_body_no_separator:
  "CHR ''/'' \<notin> set cluster \<Longrightarrow> cluster_body ecs cluster n evs event = Some (Inl IndexError, [])"
  by (simp add: cluster_body_def index0_findall_nameregex bind_lift)

lemma cluster_body_returns: "returns (cluster_body ecs cluster n evs event)"
  unfolding cluster_body_def
  by (intro returns_bind returns_simps evaluators_return)
     (simp add: returns_bind returns_simps services_loop_returns)



lemma clusters_loop_returns: "returns (clusters_loop ecs clusters n evs event)"
  by (induction clusters arbitrary: evs) (simp_all add: returns_simps returns_bind cluster_body_returns)

lemma clusters_loop_no_separator:
  assumes "arn \<in> set clusters" and "CHR ''/'' \<notin> set arn"
  shows "raises (clusters_loop ecs clusters n evs event)"
  using assms(1)
proof (induction clusters arbitrary: evs)
  case Nil
  then show ?case by simp
next
  case (Cons c clusters)
  show ?case
  proof (cases "c = arn")
    case True
    with assms(2) show ?thesis
      by (simp add: cluster_body_no_separator bind_simps raises_def)
  next
    case False
    with Cons.prems have "arn \<in> set clusters" by simp
    then have "raises (clusters_loop ecs clusters n evs' event)" for evs'
      by (rule Cons.IH)
    then show ?thesis by (simp add: raises_bind cluster_body_returns)
  qed
qed



section \<open>One pass\<close>

lemma raises_bind_Inr: "m = Some (Inr x, cs) \<Longrightarrow> raises (bind m f) = raises (f x)"
  by (cases "f x") (auto simp: raises_def bind_simps)

lemma evaluate_periodic_no_separator:
  assumes "build_client factory ''ecs'' = Inr ecs"
    and "fetch_all_items (getattr_method ecs) (Method ''list_clusters'' (list_clusters ecs))
           ''clusterArns'' [(''maxResults'', AInt 100)] = Some (Inr clusters, calls1)"
    and "fetch_all_items (getattr_method ecs)
           (Method ''list_task_definitions'' (list_task_definitions ecs))
           ''taskDefinitionArns'' [(''maxResults'', AInt 100)] = Some (Inr tds, calls2)"
    and "arn \<in> set tds \<union> set clusters" and "CHR ''/'' \<notin> set arn"
  shows "raises (evaluate_periodic clean_up event factory)"
proof -
  have "raises (bind (task_definitions_loop ecs tds 3 [] event) (\<lambda>evaluations1.
          bind (clusters_loop ecs clusters 3 evaluations1 event) (\<lambda>evaluations.
            if evaluations \<noteq> [] then
              bind (lift (clean_up event factory evaluations)) (\<lambda>_. return evaluations)
            else return [])))"
  proof (cases "arn \<in> set tds")
    case True
    from task_definitions_loop_no_separator [OF this assms(5)]
    show ?thesis by (rule raises_bind_first)
  next
    case False
    with assms(4) have "arn \<in> set clusters" by simp
    from clusters_loop_no_separator [OF this assms(5)]
    show ?thesis
      by (intro raises_bind task_definitions_loop_returns raises_bind_first)
  qed
  with assms(1,2,3) show ?thesis
    by (simp add: evaluate_periodic_def bind_lift raises_bind_Inr)
qed



section \<open>The claims\<close>

subsection \<open>The example fleet\<close>

lemma example_fetch_tags:
  "fetch_tags example_client arn =
     Some (Inr (if arn = ''task-definition/users:1'' \<or> arn = ''cluster/c1''
                   \<or> arn = ''service/c2/api''
                then three_tags
                else if arn = ''task-definition/users:2''
                then [\<lparr>key = ''Environment'', value = ''production''\<rparr>]
                else []),
           [Call ''list_tags_for_resource'' [(''resourceArn'', AStr arn)]])"
  by (simp add: fetch_all_items_ecs example_client_def single_page_def getitem_def)




lemma three_tags_checked:
  "tag_regex_filtering three_tags =
     [List [Str ''uai'', Str ''COMPLIANT''], List [Str ''env'', Str ''COMPLIANT''],
      List [Str ''Name'', Str ''COMPLIANT'']]"
  by (simp add: three_tags_def tag_regex_filtering_def tag_checked_def str_in_def lower_def
      lower_char_def uai_value_regex_filter_def digit_def env_value_regex_filter_def
      env_words_def dollar_def name_value_regex_filter_def whitespace_def)

lemma three_tags_repr:
  "repr (List (tag_regex_filtering three_tags)) =
     ''[['uai', 'COMPLIANT'], ['env', 'COMPLIANT'], ['Name', 'COMPLIANT']]''"
  unfolding three_tags_checked
  by (simp add: repr_str_def repr_quote_def repr_char_def apostrophe_def
      double_quote_def backslash_def LF_def Let_def)

lemma three_tags_count:
  "str_count (repr (List (tag_regex_filtering three_tags))) '' 'COMPLIANT']'' = 3"
  unfolding three_tags_repr by (simp add: str_count_def)





subsection \<open>Verdicts\<close>

text \<open>
  The three evaluators on a list of tags that is not empty and whose keys hold no
  apostrophe. The count is the number of entries marked \<^verbatim>\<open>COMPLIANT\<close>. The three
  annotations follow the same rule. The cluster is reported \<^verbatim>\<open>COMPLIANT\<close> exactly
  when the count is the required one; the service and the task definition are reported
  \<^verbatim>\<open>NON_COMPLIANT\<close> whatever the count.
\<close>

lemma evaluators_by_compliant_count:
  assumes "fetch_tags ecs arn = Some (Inr tags, calls)" and "tags \<noteq> []"
    and "\<forall>t\<in>set tags. CHR 0x27 \<notin> set (key t)"
  shows "cluster_eval ecs arn n name evs event =
           Some (Inr (evs @ [mk_Evaluation
             (if int (length (filter marked_compliant (tag_regex_filtering tags))) = n
              then COMPLIANT else NON_COMPLIANT) arn ''AWS::ECS::Cluster''
             (take 255
               (if int (length (filter marked_compliant (tag_regex_filtering tags))) = n
                then compliant_str name
                else non_compliant_str name (repr (List (tag_regex_filtering tags)))))]), calls)"
    and "1 < slashes arn \<Longrightarrow>
         service_eval ecs arn n name evs event =
           Some (Inr (evs @ [mk_Evaluation NON_COMPLIANT arn ''AWS::ECS::Service''
             (take 255
               (if int (length (filter marked_compliant (tag_regex_filtering tags))) = n
                then compliant_str name
                else non_compliant_str name (repr (List (tag_regex_filtering tags)))))]), calls)"
    and "CHR ''/'' \<in> set arn \<Longrightarrow>
         taskDefinition_eval ecs arn n evs event =
           Some (Inr (evs @ [mk_Evaluation NON_COMPLIANT arn ''AWS::ECS::TaskDefinition''
             (take 255
               (if int (length (filter marked_compliant (tag_regex_filtering tags))) = n
                then compliant_str (after_first_separator arn)
                else non_compliant_str (after_first_separator arn)
                       (repr (List (tag_regex_filtering tags)))))]), calls)"
proof -
  note count = compliance_count [OF assms(3)]
  from cluster_eval_tags [OF assms(1), of n name evs event] assms(2)
  show "cluster_eval ecs arn n name evs event =
           Some (Inr (evs @ [mk_Evaluation
             (if int (length (filter marked_compliant (tag_regex_filtering tags))) = n
              then COMPLIANT else NON_COMPLIANT) arn ''AWS::ECS::Cluster''
             (take 255
               (if int (length (filter marked_compliant (tag_regex_filtering tags))) = n
                then compliant_str name
                else non_compliant_str name (repr (List (tag_regex_filtering tags)))))]), calls)"
    by (simp add: count del: repr.simps)
next
  note count = compliance_count [OF assms(3)]
  assume "1 < slashes arn"
  from service_eval_tags [OF this assms(1), of n name evs event] assms(2)
  show "service_eval ecs arn n name evs event =
           Some (Inr (evs @ [mk_Evaluation NON_COMPLIANT arn ''AWS::ECS::Service''
             (take 255
               (if int (length (filter marked_compliant (tag_regex_filtering tags))) = n
                then compliant_str name
                else non_compliant_str name (repr (List (tag_regex_filtering tags)))))]), calls)"
    by (simp add: count del: repr.simps)
next
  note count = compliance_count [OF assms(3)]
  assume "CHR ''/'' \<in> set arn"
  from taskDefinition_eval_tags [OF this assms(1), of n evs event] assms(2)
  show "taskDefinition_eval ecs arn n evs event =
           Some (Inr (evs @ [mk_Evaluation NON_COMPLIANT arn ''AWS::ECS::TaskDefinition''
             (take 255
               (if int (length (filter marked_compliant (tag_regex_filtering tags))) = n
                then compliant_str (after_first_separator arn)
                else non_compliant_str (after_first_separator arn)
                       (repr (List (tag_regex_filtering tags)))))]), calls)"
    by (simp add: count del: repr.simps)
qed

text \<open>
  Claim C1 at the example fleet. The first task definition, the first cluster and the
  first service carry the same three tags; the classifier marks the three of them
  \<^verbatim>\<open>COMPLIANT\<close>, so the count is the required 3, also as the evaluators take it. The cluster is reported
  \<^verbatim>\<open>COMPLIANT\<close>. The task definition and the service are reported
  \<^verbatim>\<open>NON_COMPLIANT\<close>, with the annotation that says that their tags are compliant.
\<close>

theorem three_compliant_tags_verdicts:
  "tag_regex_filtering three_tags =
     [List [Str ''uai'', Str ''COMPLIANT''], List [Str ''env'', Str ''COMPLIANT''],
      List [Str ''Name'', Str ''COMPLIANT'']]
   \<and> str_count (repr (List (tag_regex_filtering three_tags))) '' 'COMPLIANT']'' = 3
   \<and> cluster_eval example_client ''cluster/c1'' 3 ''c1'' [] () =
       Some (Inr [mk_Evaluation COMPLIANT ''cluster/c1'' ''AWS::ECS::Cluster''
                    ''Tags are COMPLIANT on ECS Resource (c1)''],
             [Call ''list_tags_for_resource'' [(''resourceArn'', AStr ''cluster/c1'')]])
   \<and> taskDefinition_eval example_client ''task-definition/users:1'' 3 [] () =
       Some (Inr [mk_Evaluation NON_COMPLIANT ''task-definition/users:1''
                    ''AWS::ECS::TaskDefinition''
                    ''Tags are COMPLIANT on ECS Resource (users:1)''],
             [Call ''list_tags_for_resource''
                [(''resourceArn'', AStr ''task-definition/users:1'')]])
   \<and> service_eval example_client ''service/c2/api'' 3 ''api'' [] () =
       Some (Inr [mk_Evaluation NON_COMPLIANT ''service/c2/api'' ''AWS::ECS::Service''
                    ''Tags are COMPLIANT on ECS Resource (api)''],
             [Call ''list_tags_for_resource'' [(''resourceArn'', AStr ''service/c2/api'')]])"
proof -
  have n: "three_tags \<noteq> []" by (simp add: three_tags_def)
  have c: "cluster_eval example_client ''cluster/c1'' 3 ''c1'' [] () =
       Some (Inr [mk_Evaluation COMPLIANT ''cluster/c1'' ''AWS::ECS::Cluster''
                    ''Tags are COMPLIANT on ECS Resource (c1)''],
             [Call ''list_tags_for_resource'' [(''resourceArn'', AStr ''cluster/c1'')]])"
    using n by (simp add: cluster_eval_tags [OF example_fetch_tags] three_tags_count
        compliant_str_def del: repr.simps)
  have "CHR ''/'' \<in> set ''task-definition/users:1''" by simp
  from taskDefinition_eval_tags [OF this example_fetch_tags, of 3 "[]" "()"] n
  have t: "taskDefinition_eval example_client ''task-definition/users:1'' 3 [] () =
       Some (Inr [mk_Evaluation NON_COMPLIANT ''task-definition/users:1''
                    ''AWS::ECS::TaskDefinition''
                    ''Tags are COMPLIANT on ECS Resource (users:1)''],
             [Call ''list_tags_for_resource''
                [(''resourceArn'', AStr ''task-definition/users:1'')]])"
    by (simp add: three_tags_count compliant_str_def after_first_separator_def
        del: repr.simps)
  have "1 < slashes ''service/c2/api''" by (simp add: slashes_eq)
  from service_eval_tags [OF this example_fetch_tags, of 3 "''api''" "[]" "()"] n
  have s: "service_eval example_client ''service/c2/api'' 3 ''api'' [] () =
       Some (Inr [mk_Evaluation NON_COMPLIANT ''service/c2/api'' ''AWS::ECS::Service''
                    ''Tags are COMPLIANT on ECS Resource (api)''],
             [Call ''list_tags_for_resource'' [(''resourceArn'', AStr ''service/c2/api'')]])"
    by (simp add: three_tags_count compliant_str_def del: repr.simps)
  from three_tags_checked three_tags_count c t s show ?thesis by (intro conjI)
qed

subsection \<open>Pagination\<close>

text \<open>
  Claim C2. With the ECS client \<^verbatim>\<open>fetch_all_items\<close> makes one call. It returns the
  items of the response where the response carries no token, or an empty one; where
  it carries a token the next call is to the attribute \<^verbatim>\<open>method\<close> of the client
  object, which the ECS client does not have, and \<^verbatim>\<open>fetch_all_items\<close> ends with an
  \<^verbatim>\<open>AttributeError\<close> and returns no items. So it is at a listing of two pages. On
  an object that has such an attribute the loop runs, and calls that attribute with the
  token alone, without the arguments of the first call.
\<close>

theorem two_pages_not_concatenated:
  "fetch_all_items (getattr_method ecs) m response_key kw =
     (case invoke m kw of
        Inl e \<Rightarrow> Some (Inl e, [Call (method_name m) kw])
      | Inr response \<Rightarrow>
          (case getitem response response_key of
             Inl e \<Rightarrow> Some (Inl e, [Call (method_name m) kw])
           | Inr items \<Rightarrow>
               if NextToken response = None \<or> NextToken response = Some []
               then Some (Inr items, [Call (method_name m) kw])
               else Some (Inl (AttributeError ''method''), [Call (method_name m) kw])))
   \<and> fetch_all_items (getattr_method example_client) (Method ''list_clusters'' two_pages)
       ''clusterArns'' [(''maxResults'', AInt 100)]
     = Some (Inl (AttributeError ''method''),
             [Call ''list_clusters'' [(''maxResults'', AInt 100)]])
   \<and> fetch_all_items (Some (Method ''method'' two_pages)) (Method ''list_clusters'' two_pages)
       ''clusterArns'' [(''maxResults'', AInt 100)]
     = Some (Inr [''cluster/c1'', ''cluster/c2''],
             [Call ''list_clusters'' [(''maxResults'', AInt 100)],
              Call ''method'' [(''NextToken'', AStr ''t1'')]])"
proof -
  have 1: "fetch_all_items (getattr_method example_client) (Method ''list_clusters'' two_pages)
     ''clusterArns'' [(''maxResults'', AInt 100)]
   = Some (Inl (AttributeError ''method''), [Call ''list_clusters'' [(''maxResults'', AInt 100)]])"
    by (simp add: fetch_all_items_ecs two_pages_def getitem_def)
  have "fetch_all_items_loop (Some (Method ''method'' two_pages)) ''clusterArns''
          [''cluster/c1''] (Some ''t1'') [Call ''list_clusters'' [(''maxResults'', AInt 100)]]
        = fetch_all_items_loop (Some (Method ''method'' two_pages)) ''clusterArns''
          [''cluster/c1'', ''cluster/c2''] None
          [Call ''list_clusters'' [(''maxResults'', AInt 100)],
           Call ''method'' [(''NextToken'', AStr ''t1'')]]"
    by (subst fetch_all_items_loop.simps) (simp add: two_pages_def getitem_def)
  also have "\<dots> = Some (Inr [''cluster/c1'', ''cluster/c2''],
             [Call ''list_clusters'' [(''maxResults'', AInt 100)],
              Call ''method'' [(''NextToken'', AStr ''t1'')]])"
    by (subst fetch_all_items_loop.simps) simp
  finally have 2: "fetch_all_items (Some (Method ''method'' two_pages))
       (Method ''list_clusters'' two_pages) ''clusterArns'' [(''maxResults'', AInt 100)]
     = Some (Inr [''cluster/c1'', ''cluster/c2''],
             [Call ''list_clusters'' [(''maxResults'', AInt 100)],
              Call ''method'' [(''NextToken'', AStr ''t1'')]])"
    by (simp add: fetch_all_items_def two_pages_def getitem_def)
  from fetch_all_items_ecs [of ecs m response_key kw] 1 2 show ?thesis by (intro conjI)
qed

subsection \<open>Names\<close>

text \<open>
  Claim C3, as the code has it. For an identifier with at least one separator the
  display name is the part after the first separator, up to the next line feed or the
  end of the identifier. Where the identifier has exactly one separator and no line
  feed, this is the part after the last separator.
\<close>

theorem name_after_first_separator:
  assumes "CHR ''/'' \<in> set arn"
  shows "index0 (findall_nameregex arn) = Inr (after_first_separator arn)
         \<and> (count_list arn (CHR ''/'') = 1 \<and> CHR 0x0A \<notin> set arn \<longrightarrow>
              index0 (findall_nameregex arn) = Inr (after_last_separator arn))"
  using assms by (simp add: index0_findall_nameregex one_separator)

text \<open>Claim C3 at the identifier of a task definition.\<close>

theorem name_after_first_separator_witness:
  "CHR ''/'' \<in> set ''arn:aws:ecs:us-east-1:533271940600:task-definition/users:1''
   \<and> count_list ''arn:aws:ecs:us-east-1:533271940600:task-definition/users:1'' (CHR ''/'') = 1
   \<and> CHR 0x0A \<notin> set ''arn:aws:ecs:us-east-1:533271940600:task-definition/users:1''
   \<and> index0 (findall_nameregex ''arn:aws:ecs:us-east-1:533271940600:task-definition/users:1'')
       = Inr ''users:1''
   \<and> after_last_separator ''arn:aws:ecs:us-east-1:533271940600:task-definition/users:1''
       = ''users:1''"
proof -
  have 1: "CHR ''/'' \<in> set ''arn:aws:ecs:us-east-1:533271940600:task-definition/users:1''"
    by simp
  have 2: "count_list ''arn:aws:ecs:us-east-1:533271940600:task-definition/users:1''
             (CHR ''/'') = 1"
    by simp
  have 3: "CHR 0x0A \<notin> set ''arn:aws:ecs:us-east-1:533271940600:task-definition/users:1''"
    by simp
  have 4: "after_last_separator ''arn:aws:ecs:us-east-1:533271940600:task-definition/users:1''
             = ''users:1''"
    by (simp add: after_last_separator_def)
  from name_after_first_separator [OF 1] 2 3
  have "index0 (findall_nameregex ''arn:aws:ecs:us-east-1:533271940600:task-definition/users:1'')
          = Inr (after_last_separator
                   ''arn:aws:ecs:us-east-1:533271940600:task-definition/users:1'')"
    by blast
  with 1 2 3 4 show ?thesis by (simp only: simp_thms)
qed

text \<open>
  Claim C3 as the specification states it fails at an identifier with two separators:
  the display name is the part after the first one.
\<close>

theorem name_two_separators_counterexample:
  "CHR ''/'' \<in> set ''cluster/team/c1''
   \<and> index0 (findall_nameregex ''cluster/team/c1'') = Inr ''team/c1''
   \<and> after_last_separator ''cluster/team/c1'' = ''c1''"
  by (simp add: index0_def after_last_separator_def LF_def)

subsection \<open>Services with an identifier of the old format\<close>

lemma old_arn_str_short:
  "length name \<le> 214 \<Longrightarrow> take 255 (old_arn_str name) = old_arn_str name"
  by (simp add: old_arn_str_def)

lemma no_tags_str_short:
  "length name \<le> 222 \<Longrightarrow> take 255 (no_tags_str name) = no_tags_str name"
  by (simp add: no_tags_str_def)

text \<open>
  Claim C4. A service whose identifier has fewer than two separators is reported
  \<^verbatim>\<open>NON_COMPLIANT\<close> with the annotation of the old format, cut to 255 characters (the
  whole annotation for a name of at most 214 characters), and the evaluation makes no
  call at all. With two separators or more the evaluation makes one call, the tag fetch
  for the identifier.
\<close>

theorem service_old_arn:
  "(count_list service_arn (CHR ''/'') < 2 \<longrightarrow>
      service_eval ecs service_arn n service_name evs event =
        Some (Inr (evs @ [mk_Evaluation NON_COMPLIANT service_arn ''AWS::ECS::Service''
                            (take 255 (old_arn_str service_name))]), [])
      \<and> (length service_name \<le> 214 \<longrightarrow>
           take 255 (old_arn_str service_name) = old_arn_str service_name))
   \<and> (2 \<le> count_list service_arn (CHR ''/'') \<longrightarrow>
        (\<exists>r. service_eval ecs service_arn n service_name evs event =
               Some (r, [Call ''list_tags_for_resource'' [(''resourceArn'', AStr service_arn)]])))"
proof (intro conjI impI)
  assume "count_list service_arn (CHR ''/'') < 2"
  then have "\<not> 1 < slashes service_arn" by (simp add: slashes_eq)
  then show "service_eval ecs service_arn n service_name evs event =
        Some (Inr (evs @ [mk_Evaluation NON_COMPLIANT service_arn ''AWS::ECS::Service''
                            (take 255 (old_arn_str service_name))]), [])"
    by (rule service_eval_legacy)
next
  assume "length service_name \<le> 214"
  then show "take 255 (old_arn_str service_name) = old_arn_str service_name"
    by (rule old_arn_str_short)
next
  assume "2 \<le> count_list service_arn (CHR ''/'')"
  then have new: "1 < slashes service_arn" by (simp add: slashes_eq)
  obtain r where r: "fetch_tags ecs service_arn =
      Some (r, [Call ''list_tags_for_resource'' [(''resourceArn'', AStr service_arn)]])"
    using fetch_tags_returns by blast
  show "\<exists>r. service_eval ecs service_arn n service_name evs event =
               Some (r, [Call ''list_tags_for_resource'' [(''resourceArn'', AStr service_arn)]])"
  proof (cases r)
    case (Inl e)
    with r new show ?thesis by (simp add: service_eval_error)
  next
    case (Inr tags)
    with r new show ?thesis by (simp add: service_eval_tags)
  qed
qed

text \<open>
  Claim C4 at the two services of the example fleet: \<^verbatim>\<open>service/web\<close> has one
  separator, \<^verbatim>\<open>service/c2/api\<close> has two.
\<close>

theorem service_old_arn_witness:
  "count_list ''service/web'' (CHR ''/'') < 2
   \<and> length ''web'' \<le> 214
   \<and> service_eval example_client ''service/web'' 3 ''web'' [] () =
       Some (Inr [mk_Evaluation NON_COMPLIANT ''service/web'' ''AWS::ECS::Service''
                    ''(web) uses old ARN and does not support TAGS''], [])
   \<and> 2 \<le> count_list ''service/c2/api'' (CHR ''/'')
   \<and> (\<exists>r. service_eval example_client ''service/c2/api'' 3 ''api'' [] () =
             Some (r, [Call ''list_tags_for_resource'' [(''resourceArn'', AStr ''service/c2/api'')]]))"
proof -
  have 1: "count_list ''service/web'' (CHR ''/'') < 2" by simp
  have 2: "length ''web'' \<le> 214" by simp
  have 3: "2 \<le> count_list ''service/c2/api'' (CHR ''/'')" by simp
  from service_old_arn [of "''service/web''" example_client 3 "''web''" "[]" "()"] 1 2
  have 4: "service_eval example_client ''service/web'' 3 ''web'' [] () =
       Some (Inr [mk_Evaluation NON_COMPLIANT ''service/web'' ''AWS::ECS::Service''
                    (old_arn_str ''web'')], [])"
    by simp
  from service_old_arn [of "''service/c2/api''" example_client 3 "''api''" "[]" "()"] 3
  have 5: "\<exists>r. service_eval example_client ''service/c2/api'' 3 ''api'' [] () =
             Some (r, [Call ''list_tags_for_resource'' [(''resourceArn'', AStr ''service/c2/api'')]])"
    by blast
  from 1 2 3 4 5 show ?thesis by (simp add: old_arn_str_def)
qed

subsection \<open>Resources without tags\<close>

text \<open>
  Claim C5. Where the tag fetch for a resource returns the empty list, the resource is
  reported \<^verbatim>\<open>NON_COMPLIANT\<close> with the annotation that it has no tags at all, cut to
  255 characters (the whole annotation for a name of at most 222 characters), whatever
  the required count: a task definition whose identifier has a separator, with the name
  taken from the identifier; a service whose identifier has two separators or more; a
  cluster.
\<close>

theorem no_tags_non_compliant:
  assumes "fetch_tags ecs arn = Some (Inr [], calls)"
  shows "(CHR ''/'' \<in> set arn \<longrightarrow>
            taskDefinition_eval ecs arn n evs event =
              Some (Inr (evs @ [mk_Evaluation NON_COMPLIANT arn ''AWS::ECS::TaskDefinition''
                (take 255 (no_tags_str (after_first_separator arn)))]), calls))
         \<and> (2 \<le> count_list arn (CHR ''/'') \<longrightarrow>
              service_eval ecs arn n name evs event =
                Some (Inr (evs @ [mk_Evaluation NON_COMPLIANT arn ''AWS::ECS::Service''
                  (take 255 (no_tags_str name))]), calls))
         \<and> cluster_eval ecs arn n name evs event =
             Some (Inr (evs @ [mk_Evaluation NON_COMPLIANT arn ''AWS::ECS::Cluster''
               (take 255 (no_tags_str name))]), calls)
         \<and> (length name \<le> 222 \<longrightarrow> take 255 (no_tags_str name) = no_tags_str name)"
proof (intro conjI impI)
  assume "CHR ''/'' \<in> set arn"
  from taskDefinition_eval_tags [OF this assms, of n evs event]
  show "taskDefinition_eval ecs arn n evs event =
              Some (Inr (evs @ [mk_Evaluation NON_COMPLIANT arn ''AWS::ECS::TaskDefinition''
                (take 255 (no_tags_str (after_first_separator arn)))]), calls)"
    by simp
next
  assume "2 \<le> count_list arn (CHR ''/'')"
  then have "1 < slashes arn" by (simp add: slashes_eq)
  from service_eval_tags [OF this assms, of n name evs event]
  show "service_eval ecs arn n name evs event =
                Some (Inr (evs @ [mk_Evaluation NON_COMPLIANT arn ''AWS::ECS::Service''
                  (take 255 (no_tags_str name))]), calls)"
    by simp
next
  from cluster_eval_tags [OF assms, of n name evs event]
  show "cluster_eval ecs arn n name evs event =
             Some (Inr (evs @ [mk_Evaluation NON_COMPLIANT arn ''AWS::ECS::Cluster''
               (take 255 (no_tags_str name))]), calls)"
    by simp
next
  assume "length name \<le> 222"
  then show "take 255 (no_tags_str name) = no_tags_str name" by (rule no_tags_str_short)
qed

text \<open>
  Claim C5 at the example fleet, whose tag fetch returns the empty list for every
  identifier that it does not know. The required count is 0 here: the empty list has
  0 compliant tags, and the verdict is \<^verbatim>\<open>NON_COMPLIANT\<close> all the same.
\<close>

theorem no_tags_non_compliant_witness:
  "fetch_tags example_client ''service/c9/jobs'' =
     Some (Inr [], [Call ''list_tags_for_resource'' [(''resourceArn'', AStr ''service/c9/jobs'')]])
   \<and> CHR ''/'' \<in> set ''service/c9/jobs''
   \<and> 2 \<le> count_list ''service/c9/jobs'' (CHR ''/'')
   \<and> length ''jobs'' \<le> 222
   \<and> taskDefinition_eval example_client ''service/c9/jobs'' 0 [] () =
       Some (Inr [mk_Evaluation NON_COMPLIANT ''service/c9/jobs'' ''AWS::ECS::TaskDefinition''
                    ''NO Tags at all on ECS Resource (c9/jobs)''],
             [Call ''list_tags_for_resource'' [(''resourceArn'', AStr ''service/c9/jobs'')]])
   \<and> service_eval example_client ''service/c9/jobs'' 0 ''jobs'' [] () =
       Some (Inr [mk_Evaluation NON_COMPLIANT ''service/c9/jobs'' ''AWS::ECS::Service''
                    ''NO Tags at all on ECS Resource (jobs)''],
             [Call ''list_tags_for_resource'' [(''resourceArn'', AStr ''service/c9/jobs'')]])
   \<and> cluster_eval example_client ''service/c9/jobs'' 0 ''jobs'' [] () =
       Some (Inr [mk_Evaluation NON_COMPLIANT ''service/c9/jobs'' ''AWS::ECS::Cluster''
                    ''NO Tags at all on ECS Resource (jobs)''],
             [Call ''list_tags_for_resource'' [(''resourceArn'', AStr ''service/c9/jobs'')]])"
proof -
  have 1: "fetch_tags example_client ''service/c9/jobs'' =
     Some (Inr [], [Call ''list_tags_for_resource'' [(''resourceArn'', AStr ''service/c9/jobs'')]])"
    by (simp add: example_fetch_tags)
  have 2: "CHR ''/'' \<in> set ''service/c9/jobs''" "2 \<le> count_list ''service/c9/jobs'' (CHR ''/'')"
      "length ''jobs'' \<le> 222"
    by simp_all
  have 3: "after_first_separator ''service/c9/jobs'' = ''c9/jobs''"
    by (simp add: after_first_separator_def)
  from no_tags_non_compliant [OF 1, of 0 "[]" "()" "''jobs''"] 1 2 3
  show ?thesis by (simp add: no_tags_str_def)
qed

subsection \<open>The length of an annotation\<close>




subsection \<open>The batch of one pass\<close>




subsection \<open>Identifiers without a separator\<close>

text \<open>
  Claim C10. For an identifier without a separator the list of matches is empty and
  taking its first element fails with an \<^verbatim>\<open>IndexError\<close>. The evaluation of a task
  definition and the body of the loop over the clusters end with this error before any
  call and without an evaluation. Where such an identifier is among the listed task
  definitions or clusters, the pass ends with an exception and returns no batch. For an
  identifier with a separator the extraction returns a name.
\<close>

theorem no_separator_aborts:
  assumes "CHR ''/'' \<notin> set arn"
  shows "index0 (findall_nameregex arn) = Inl IndexError
         \<and> taskDefinition_eval ecs arn n evs event = Some (Inl IndexError, [])
         \<and> cluster_body ecs arn n evs event = Some (Inl IndexError, [])
         \<and> (build_client factory ''ecs'' = Inr ecs' \<and>
              fetch_all_items (getattr_method ecs') (Method ''list_clusters'' (list_clusters ecs'))
                ''clusterArns'' [(''maxResults'', AInt 100)] = Some (Inr clusters, calls) \<and>
              fetch_all_items (getattr_method ecs')
                (Method ''list_task_definitions'' (list_task_definitions ecs'))
                ''taskDefinitionArns'' [(''maxResults'', AInt 100)] = Some (Inr tds, calls') \<and>
              arn \<in> set tds \<union> set clusters \<longrightarrow>
              raises (evaluate_periodic clean_up event factory))
         \<and> (\<forall>s. CHR ''/'' \<in> set s \<longrightarrow> (\<exists>name. index0 (findall_nameregex s) = Inr name))"
proof (intro conjI impI allI)
  from assms show "index0 (findall_nameregex arn) = Inl IndexError"
    by (simp add: index0_findall_nameregex)
next
  from assms show "taskDefinition_eval ecs arn n evs event = Some (Inl IndexError, [])"
    by (rule taskDefinition_eval_no_separator)
next
  from assms show "cluster_body ecs arn n evs event = Some (Inl IndexError, [])"
    by (rule cluster_body_no_separator)
next
  assume "build_client factory ''ecs'' = Inr ecs' \<and>
              fetch_all_items (getattr_method ecs') (Method ''list_clusters'' (list_clusters ecs'))
                ''clusterArns'' [(''maxResults'', AInt 100)] = Some (Inr clusters, calls) \<and>
              fetch_all_items (getattr_method ecs')
                (Method ''list_task_definitions'' (list_task_definitions ecs'))
                ''taskDefinitionArns'' [(''maxResults'', AInt 100)] = Some (Inr tds, calls') \<and>
              arn \<in> set tds \<union> set clusters"
  then have "build_client factory ''ecs'' = Inr ecs'"
    and "fetch_all_items (getattr_method ecs') (Method ''list_clusters'' (list_clusters ecs'))
                ''clusterArns'' [(''maxResults'', AInt 100)] = Some (Inr clusters, calls)"
    and "fetch_all_items (getattr_method ecs')
                (Method ''list_task_definitions'' (list_task_definitions ecs'))
                ''taskDefinitionArns'' [(''maxResults'', AInt 100)] = Some (Inr tds, calls')"
    and "arn \<in> set tds \<union> set clusters"
    by simp_all
  from evaluate_periodic_no_separator [OF this assms]
  show "raises (evaluate_periodic clean_up event factory)" .
next
  fix s :: string
  assume "CHR ''/'' \<in> set s"
  then show "\<exists>name. index0 (findall_nameregex s) = Inr name"
    by (simp add: index0_findall_nameregex)
qed

text \<open>
  Claim C10 at the identifier \<^verbatim>\<open>default\<close>, and at the example fleet with a third
  cluster of this identifier: the pass ends with an exception.
\<close>

theorem no_separator_aborts_witness:
  "CHR ''/'' \<notin> set ''default''
   \<and> index0 (findall_nameregex ''default'') = Inl IndexError
   \<and> taskDefinition_eval example_client ''default'' 3 [] () = Some (Inl IndexError, [])
   \<and> cluster_body example_client ''default'' 3 [] () = Some (Inl IndexError, [])
   \<and> ''default'' \<in> set [''task-definition/users:1'', ''task-definition/users:2'',
                           ''task-definition/jobs:1'']
                     \<union> set [''cluster/c1'', ''cluster/c2'', ''default'']
   \<and> raises (evaluate_periodic (\<lambda>event factory evs. Inr ()) ()
                example_factory_default_cluster)
   \<and> CHR ''/'' \<in> set ''cluster/c1''
   \<and> (\<exists>name. index0 (findall_nameregex ''cluster/c1'') = Inr name)"
proof -
  define ecs where "ecs = example_client
           \<lparr>list_clusters :=
              (\<lambda>kw. single_page ''clusterArns'' [''cluster/c1'', ''cluster/c2'', ''default''])\<rparr>"
  have 1: "CHR ''/'' \<notin> set ''default''" by simp
  have 2: "build_client example_factory_default_cluster ''ecs'' = Inr ecs"
    by (simp add: example_factory_default_cluster_def ecs_def)
  have 3: "fetch_all_items (getattr_method ecs) (Method ''list_clusters'' (list_clusters ecs))
                ''clusterArns'' [(''maxResults'', AInt 100)]
           = Some (Inr [''cluster/c1'', ''cluster/c2'', ''default''],
                   [Call ''list_clusters'' [(''maxResults'', AInt 100)]])"
    by (simp add: fetch_all_items_ecs ecs_def single_page_def getitem_def)
  have 4: "fetch_all_items (getattr_method ecs)
                (Method ''list_task_definitions'' (list_task_definitions ecs))
                ''taskDefinitionArns'' [(''maxResults'', AInt 100)]
           = Some (Inr [''task-definition/users:1'', ''task-definition/users:2'',
                        ''task-definition/jobs:1''],
                   [Call ''list_task_definitions'' [(''maxResults'', AInt 100)]])"
    by (simp add: fetch_all_items_ecs ecs_def example_client_def single_page_def getitem_def)
  have 5: "''default'' \<in> set [''task-definition/users:1'', ''task-definition/users:2'',
                           ''task-definition/jobs:1'']
                     \<union> set [''cluster/c1'', ''cluster/c2'', ''default'']"
    by simp
  have 6: "CHR ''/'' \<in> set ''cluster/c1''" by simp
  note inst = no_separator_aborts
    [OF 1, where ecs = example_client and n = 3 and evs = "[]" and event = "()"
       and factory = example_factory_default_cluster and ecs' = ecs
       and clusters = "[''cluster/c1'', ''cluster/c2'', ''default'']"
       and tds = "[''task-definition/users:1'', ''task-definition/users:2'',
                   ''task-definition/jobs:1'']"
       and calls = "[Call ''list_clusters'' [(''maxResults'', AInt 100)]]"
       and calls' = "[Call ''list_task_definitions'' [(''maxResults'', AInt 100)]]"
       and clean_up = "\<lambda>event factory evs. Inr ()"]
  note a = conjunct1 [OF inst]
  note b = conjunct1 [OF conjunct2 [OF inst]]
  note c = conjunct1 [OF conjunct2 [OF conjunct2 [OF inst]]]
  note rest = conjunct2 [OF conjunct2 [OF conjunct2 [OF inst]]]
  from mp [OF conjunct1 [OF rest] conjI [OF 2 conjI [OF 3 conjI [OF 4 5]]]]
  have d: "raises (evaluate_periodic (\<lambda>event factory evs. Inr ()) ()
                example_factory_default_cluster)" .
  from mp [OF spec [OF conjunct2 [OF rest]] 6]
  have e: "\<exists>name. index0 (findall_nameregex ''cluster/c1'') = Inr name" .
  from 1 a b c 5 d 6 e show ?thesis by (intro conjI)
qed

end
